theory Spec2Isabelle
  imports Main "HOL-Library.Multiset"
begin

section \<open>JavaScript values used by the importer\<close>

text \<open>
  A JavaScript string is a sequence of UTF-16 code units. The identity generator only reads
  a string through \<^verbatim>\<open>charCodeAt\<close>, so there a string is the list of its code units
  (natural numbers). String literals of the source are written as HOL strings and turned
  into code units by \<open>charCodes\<close>.
\<close>

definition charCodes :: "string \<Rightarrow> nat list" where
  "charCodes s = map of_char s"

text \<open>\<^verbatim>\<open>ToInt32\<close>: what the bitwise operators \<^verbatim>\<open><<\<close> and \<^verbatim>\<open>&\<close> do to
  an integral number before they work on it: reduce it modulo \<open>2^32\<close> into the signed range.\<close>

definition ToInt32 :: "int \<Rightarrow> int" where
  "ToInt32 x = (x + 2147483648) mod 4294967296 - 2147483648"

text \<open>\<^verbatim>\<open>num.toString(36)\<close> for a non-negative integer.\<close>

definition digit36 :: "nat \<Rightarrow> char" where
  "digit36 d = ''0123456789abcdefghijklmnopqrstuvwxyz'' ! d"

function toString36 :: "nat \<Rightarrow> string" where
  "toString36 n = (if n < 36 then [digit36 n] else toString36 (n div 36) @ [digit36 (n mod 36)])"
  by pat_completeness auto
termination
  by (relation "measure (\<lambda>n. n)") auto

declare toString36.simps [simp del]

text \<open>\<^verbatim>\<open>s.padStart(len, c)\<close> with a one-character filler, and \<^verbatim>\<open>s.substring(0, n)\<close>.\<close>

definition padStart :: "string \<Rightarrow> nat \<Rightarrow> char \<Rightarrow> string" where
  "padStart s len c = replicate (len - length s) c @ s"

definition substring0 :: "string \<Rightarrow> nat \<Rightarrow> string" where
  "substring0 s n = take n s"

section \<open>deterministic-uuid.ts\<close>

text \<open>
  \<^verbatim>\<open>hash = ((hash << 5) - hash) + char; hash = hash & hash;\<close>
  The shift wraps to 32 bits, the subtraction and the addition are exact (the numbers stay
  far below \<open>2^53\<close>), and \<^verbatim>\<open>hash & hash\<close> wraps again.
\<close>

definition hashStep :: "int \<Rightarrow> nat \<Rightarrow> int" where
  "hashStep hash c = ToInt32 ((ToInt32 (hash * 32) - hash) + int c)"

fun hashLoop :: "int \<Rightarrow> nat list \<Rightarrow> int" where
  "hashLoop hash [] = hash"
| "hashLoop hash (c # cs) = hashLoop (hashStep hash c) cs"

definition hashString :: "nat list \<Rightarrow> int" where
  "hashString str = \<bar>hashLoop 0 str\<bar>"

definition toBase36 :: "int \<Rightarrow> nat \<Rightarrow> string" where
  "toBase36 num len = padStart (toString36 (nat num)) len CHR ''0''"

definition generateDeterministicUUID :: "nat list \<Rightarrow> nat list \<Rightarrow> string" where
  "generateDeterministicUUID path namespace =
     (let input = namespace @ charCodes '':'' @ path;
          hash1 = hashString input;
          hash2 = hashString (input @ charCodes ''salt1'');
          hash3 = hashString (input @ charCodes ''salt2'');
          part1 = toBase36 hash1 6;
          part2 = toBase36 hash2 5;
          part3 = toBase36 hash3 5
      in substring0 (part1 @ part2 @ part3) 16)"

text \<open>\<^verbatim>\<open>folderPath.join('/')\<close>\<close>

fun joinWith :: "'a list \<Rightarrow> 'a list list \<Rightarrow> 'a list" where
  "joinWith sep [] = []"
| "joinWith sep [x] = x"
| "joinWith sep (x # y # ys) = x @ sep @ joinWith sep (y # ys)"

definition generateFolderUUID :: "nat list list \<Rightarrow> string" where
  "generateFolderUUID folderPath =
     generateDeterministicUUID (joinWith (charCodes ''/'') folderPath) (charCodes ''folder'')"

definition generateJournalUUID :: "nat list \<Rightarrow> string" where
  "generateJournalUUID filePath = generateDeterministicUUID filePath (charCodes ''journal'')"

text \<open>An empty page name is falsy: then the path is the file path alone.\<close>

definition generatePageUUID :: "nat list \<Rightarrow> nat list \<Rightarrow> string" where
  "generatePageUUID filePath pageName =
     (let path = (if pageName \<noteq> [] then filePath @ charCodes ''#'' @ pageName else filePath)
      in generateDeterministicUUID path (charCodes ''page''))"

section \<open>JavaScript strings and regular expressions of lava-flow.ts\<close>

text \<open>
  The text-processing functions work on HOL strings: a character stands for the UTF-16 code
  unit of the same number, so the model covers the texts whose code units are below 256
  (ASCII and Latin-1). On these, the character classes and \<^verbatim>\<open>toLowerCase\<close> below are
  the ones of ECMAScript.
\<close>

definition LF :: char where "LF = CHR 0x0A"
definition CR :: char where "CR = CHR 0x0D"

text \<open>\<^verbatim>\<open>.\<close> matches everything but a line terminator; \<^verbatim>\<open>^\<close> and \<^verbatim>\<open>$\<close>
  with the \<^verbatim>\<open>m\<close> flag look for one.\<close>

definition isLineTerminator :: "char \<Rightarrow> bool" where
  "isLineTerminator c = (c = LF \<or> c = CR)"

text \<open>\<^verbatim>\<open>\s\<close>, also what \<^verbatim>\<open>trim\<close> removes: tab, line feed, vertical tab, form feed,
  carriage return, space and no-break space.\<close>

definition isWhiteSpace :: "char \<Rightarrow> bool" where
  "isWhiteSpace c = (c \<in> set [CHR 0x09, CHR 0x0A, CHR 0x0B, CHR 0x0C, CHR 0x0D, CHR 0x20, CHR 0xA0])"

definition isDigit :: "char \<Rightarrow> bool" where
  "isDigit c = (48 \<le> (of_char c :: nat) \<and> (of_char c :: nat) \<le> 57)"

definition isAsciiLetter :: "char \<Rightarrow> bool" where
  "isAsciiLetter c = ((65 \<le> (of_char c :: nat) \<and> (of_char c :: nat) \<le> 90)
                     \<or> (97 \<le> (of_char c :: nat) \<and> (of_char c :: nat) \<le> 122))"

text \<open>\<^verbatim>\<open>[0-9A-Za-z]\<close>, and \<^verbatim>\<open>\w\<close> (which \<^verbatim>\<open>\b\<close> reads).\<close>

definition isAlnum :: "char \<Rightarrow> bool" where
  "isAlnum c = (isDigit c \<or> isAsciiLetter c)"

definition isWordChar :: "char \<Rightarrow> bool" where
  "isWordChar c = (isAlnum c \<or> c = CHR ''_'')"

text \<open>\<^verbatim>\<open>[A-Za-z0-9_-]\<close>\<close>

definition isKeyChar :: "char \<Rightarrow> bool" where
  "isKeyChar c = (isAlnum c \<or> c = CHR ''_'' \<or> c = CHR ''-'')"

definition toLowerCaseChar :: "char \<Rightarrow> char" where
  "toLowerCaseChar c =
     (let n = (of_char c :: nat)
      in if (65 \<le> n \<and> n \<le> 90) \<or> (192 \<le> n \<and> n \<le> 222 \<and> n \<noteq> 215)
         then char_of (n + 32) else c)"

definition toLowerCase :: "string \<Rightarrow> string" where
  "toLowerCase s = map toLowerCaseChar s"

definition trim :: "string \<Rightarrow> string" where
  "trim s = rev (dropWhile isWhiteSpace (rev (dropWhile isWhiteSpace s)))"

text \<open>\<^verbatim>\<open>s.slice(1, -1)\<close>\<close>

definition slice1 :: "string \<Rightarrow> string" where
  "slice1 s = butlast (tl s)"

fun stripPrefix :: "string \<Rightarrow> string \<Rightarrow> string option" where
  "stripPrefix [] s = Some s"
| "stripPrefix (p # ps) [] = None"
| "stripPrefix (p # ps) (c # cs) = (if p = c then stripPrefix ps cs else None)"

text \<open>\<^verbatim>\<open>\r?\n\<close> at the start of a string: what is left after it.\<close>

definition matchNewline :: "string \<Rightarrow> string option" where
  "matchNewline s =
     (case stripPrefix [CR, LF] s of
        Some r \<Rightarrow> Some r
      | None \<Rightarrow> stripPrefix [LF] s)"

text \<open>\<^verbatim>\<open>s.split(/\r?\n/)\<close>: a lone carriage return stays in its line.\<close>

fun splitLines :: "string \<Rightarrow> string list" where
  "splitLines [] = [[]]"
| "splitLines (c # cs) =
     (if c = LF then [] # splitLines cs
      else if c = CR \<and> cs \<noteq> [] \<and> hd cs = LF then [] # splitLines (tl cs)
      else (case splitLines cs of
              [] \<Rightarrow> [[c]]
            | l # ls \<Rightarrow> (c # l) # ls))"

subsection \<open>The frontmatter block\<close>

text \<open>
  \<^verbatim>\<open>/^---\r?\n([\s\S]*?)\r?\n---(\r?\n)?/\<close>.
  \<open>closeFrontmatter\<close> is the part after the lazy group, tried at one position: it gives the
  text after the match. The lazy group takes the fewest characters, so \<open>scanFrontmatter\<close>
  tries the closing at each position from the left and stops at the first that fits.
  \<open>matchFrontmatter\<close> gives the captured block and the text after the whole match.
\<close>

definition closeFrontmatter :: "string \<Rightarrow> string option" where
  "closeFrontmatter s =
     (case matchNewline s of
        None \<Rightarrow> None
      | Some r \<Rightarrow>
          (case stripPrefix ''---'' r of
             None \<Rightarrow> None
           | Some r' \<Rightarrow> (case matchNewline r' of Some r'' \<Rightarrow> Some r'' | None \<Rightarrow> Some r')))"

fun scanFrontmatter :: "string \<Rightarrow> string \<Rightarrow> (string \<times> string) option" where
  "scanFrontmatter acc [] =
     (case closeFrontmatter [] of Some rest \<Rightarrow> Some (acc, rest) | None \<Rightarrow> None)"
| "scanFrontmatter acc (c # cs) =
     (case closeFrontmatter (c # cs) of
        Some rest \<Rightarrow> Some (acc, rest)
      | None \<Rightarrow> scanFrontmatter (acc @ [c]) cs)"

definition matchFrontmatter :: "string \<Rightarrow> (string \<times> string) option" where
  "matchFrontmatter raw =
     (case stripPrefix ''---'' raw of
        None \<Rightarrow> None
      | Some r \<Rightarrow>
          (case matchNewline r of
             None \<Rightarrow> None
           | Some r' \<Rightarrow> scanFrontmatter [] r'))"

text \<open>
  \<^verbatim>\<open>/^\s*([A-Za-z0-9_-]+)\s*:\s*(.*)\s*$/\<close> on one line, giving groups 1 and 2.
  White space, key characters and the colon are disjoint classes, so each greedy run before
  the colon is the longest one. After the colon and its white space, \<^verbatim>\<open>(.*)\<close> takes the
  longest run without a line terminator and what follows must be white space up to the end;
  giving characters back cannot help, since the first character after that run is a line
  terminator that \<^verbatim>\<open>.\<close> never crosses.
\<close>

definition matchKeyValue :: "string \<Rightarrow> (string \<times> string) option" where
  "matchKeyValue line =
     (let s1 = dropWhile isWhiteSpace line;
          key = takeWhile isKeyChar s1;
          s2 = dropWhile isWhiteSpace (dropWhile isKeyChar s1)
      in if key = [] then None
         else (case s2 of
                 [] \<Rightarrow> None
               | c # s3 \<Rightarrow>
                   if c \<noteq> CHR '':'' then None
                   else (let s4 = dropWhile isWhiteSpace s3;
                             v = takeWhile (\<lambda>x. \<not> isLineTerminator x) s4;
                             r = dropWhile (\<lambda>x. \<not> isLineTerminator x) s4
                         in if list_all isWhiteSpace r then Some (key, v) else None)))"

datatype fmValue = FMBool bool | FMString string

text \<open>\<^verbatim>\<open>/^['"].*['"]$/.test(val)\<close>\<close>

definition isQuoted :: "string \<Rightarrow> bool" where
  "isQuoted v =
     (2 \<le> length v \<and> hd v \<in> set [CHR 0x27, CHR 0x22] \<and> last v \<in> set [CHR 0x27, CHR 0x22]
      \<and> list_all (\<lambda>x. \<not> isLineTerminator x) (slice1 v))"

text \<open>\<^verbatim>\<open>/^word$/i.test(s)\<close> for a word of ASCII letters: the characters of \<open>s\<close> are
  those of the word, up to case.\<close>

definition testWordIgnoreCase :: "string \<Rightarrow> string \<Rightarrow> bool" where
  "testWordIgnoreCase word s = (toLowerCase s = toLowerCase word)"

text \<open>The value of a line, from group 2.\<close>

definition coerceValue :: "string \<Rightarrow> fmValue" where
  "coerceValue m2 =
     (let val = trim m2
      in if testWordIgnoreCase ''true'' (toLowerCase val) then FMBool True
         else if testWordIgnoreCase ''false'' (toLowerCase val) then FMBool False
         else if isQuoted val then FMString (slice1 val)
         else FMString val)"

text \<open>
  One step of the \<^verbatim>\<open>forEach\<close>: a line that does not match is skipped. The object starts
  as \<^verbatim>\<open>{}\<close>; assigning a string or a boolean to its \<^verbatim>\<open>__proto__\<close> changes nothing.
\<close>

definition parseLine :: "(string \<rightharpoonup> fmValue) \<Rightarrow> string \<Rightarrow> (string \<rightharpoonup> fmValue)" where
  "parseLine fm line =
     (case matchKeyValue line of
        None \<Rightarrow> fm
      | Some (k, v) \<Rightarrow>
          (let key = toLowerCase k
           in if key = ''__proto__'' then fm else fm(key \<mapsto> coerceValue v)))"

definition parseYaml :: "string \<Rightarrow> (string \<rightharpoonup> fmValue)" where
  "parseYaml yaml = foldl parseLine Map.empty (splitLines yaml)"

text \<open>\<^verbatim>\<open>String(frontmatter['visibility'])\<close>\<close>

definition jsString :: "fmValue option \<Rightarrow> string" where
  "jsString v =
     (case v of
        None \<Rightarrow> ''undefined''
      | Some (FMBool b) \<Rightarrow> (if b then ''true'' else ''false'')
      | Some (FMString s) \<Rightarrow> s)"

subsection \<open>The body\<close>

text \<open>
  \<^verbatim>\<open>body.replace(/^> \[!dm\].*$(\r?\n^>.*$)*/gm, '')\<close>.
  A match starts at a line start with the marker, runs to the end of that line and on over
  every following line that starts with \<^verbatim>\<open>>\<close>. The scan keeps a mode: at a line start,
  inside a line, or inside a match (whose characters are dropped). A match ends in front of
  a line terminator that no \<^verbatim>\<open>>\<close> line follows.
\<close>

datatype scanMode = AtLineStart | InLine | InMatch

fun stripCallouts :: "scanMode \<Rightarrow> string \<Rightarrow> string" where
  "stripCallouts mode [] = []"
| "stripCallouts mode (c # cs) =
     (case mode of
        InMatch \<Rightarrow>
          (if \<not> isLineTerminator c then stripCallouts InMatch cs
           else if (case matchNewline (c # cs) of
                      Some r \<Rightarrow> r \<noteq> [] \<and> hd r = CHR ''>''
                    | None \<Rightarrow> False)
                then stripCallouts InMatch cs
           else c # stripCallouts AtLineStart cs)
      | AtLineStart \<Rightarrow>
          (if stripPrefix ''> [!dm]'' (c # cs) \<noteq> None then stripCallouts InMatch cs
           else c # stripCallouts (if isLineTerminator c then AtLineStart else InLine) cs)
      | InLine \<Rightarrow>
          c # stripCallouts (if isLineTerminator c then AtLineStart else InLine) cs)"

text \<open>
  \<^verbatim>\<open>/^#[0-9A-Za-z]+\b/\<close> at the start of a string: one \<^verbatim>\<open>#\<close>, the longest run of
  letters and digits, and a word boundary after it (a shorter run ends between two word
  characters, where there is no boundary).
\<close>

definition matchHeading :: "string \<Rightarrow> bool" where
  "matchHeading s =
     (s \<noteq> [] \<and> hd s = CHR ''#'' \<and> takeWhile isAlnum (tl s) \<noteq> [] \<and>
      (dropWhile isAlnum (tl s) = [] \<or> \<not> isWordChar (hd (dropWhile isAlnum (tl s)))))"

text \<open>
  \<^verbatim>\<open>body.replace(/^#[0-9A-Za-z]+\b/gm, ' $&')\<close>: a space goes in front of each match and
  the match itself stays. A match holds no line terminator, so no other match starts
  inside it and the scan goes on character by character. The flag says whether the
  position is a line start.
\<close>

fun headingTweakFrom :: "bool \<Rightarrow> string \<Rightarrow> string" where
  "headingTweakFrom atStart [] = []"
| "headingTweakFrom atStart (c # cs) =
     (if atStart \<and> matchHeading (c # cs) then CHR '' '' # c # headingTweakFrom False cs
      else c # headingTweakFrom (isLineTerminator c) cs)"

definition headingTweak :: "string \<Rightarrow> string" where
  "headingTweak body = headingTweakFrom True body"

subsection \<open>parseFrontmatterAndBody\<close>

record parsedFile =
  pf_body :: string
  pf_isPublic :: bool
  pf_frontmatter :: "string \<rightharpoonup> fmValue"

text \<open>The file is given by its text (\<^verbatim>\<open>file.originalFile.text()\<close>), the settings by the
  one flag the function reads, \<^verbatim>\<open>stripObsidianComments\<close>.\<close>

definition parseFrontmatterAndBody :: "string \<Rightarrow> bool \<Rightarrow> parsedFile" where
  "parseFrontmatterAndBody raw stripObsidianComments =
     (let fmMatch = matchFrontmatter raw;
          frontmatter = (case fmMatch of None \<Rightarrow> Map.empty | Some (yaml, rest) \<Rightarrow> parseYaml yaml);
          isPublic = (case fmMatch of
                        None \<Rightarrow> False
                      | Some m \<Rightarrow>
                          frontmatter ''public'' = Some (FMBool True)
                          \<or> toLowerCase (jsString (frontmatter ''visibility'')) = ''public'');
          body0 = (case fmMatch of None \<Rightarrow> raw | Some (yaml, rest) \<Rightarrow> rest);
          body1 = (if stripObsidianComments then stripCallouts AtLineStart body0 else body0);
          body2 = headingTweak body1
      in \<lparr> pf_body = body2, pf_isPublic = isPublic, pf_frontmatter = frontmatter \<rparr>)"

section \<open>Link rewriting and backlinks (lava-flow.ts)\<close>

text \<open>
  \<^verbatim>\<open>FileInfo\<close> and its subclasses (file-info.ts) are not among the sources. The two passes
  read a file through \<^verbatim>\<open>getLinkRegex()\<close>, \<^verbatim>\<open>getLink(alias)\<close>, \<^verbatim>\<open>fileNameNoExt\<close>,
  \<^verbatim>\<open>journalPage\<close> and \<^verbatim>\<open>instanceof OtherFileInfo\<close>; the model takes these as the fields of
  a record. A pattern is given by what \<^verbatim>\<open>matchAll\<close> returns for a text: the matches from
  left to right, each with the matched text (index 0) and the second group (absent when the
  group took no part). \<^verbatim>\<open>getLink\<close> takes the alias (absent when called without one) and
  gives the link, or nothing for \<^verbatim>\<open>null\<close>.

  A page of the document store is referred to by a number, and the store maps a page to its
  markdown body. The object in \<^verbatim>\<open>journalPage\<close> is used in two ways. Line 296 assigns a
  page to it (what \<^verbatim>\<open>pages.find\<close> or \<^verbatim>\<open>JournalEntryPage.create\<close> gave), and
  \<^verbatim>\<open>importVault\<close> hands these objects to \<^verbatim>\<open>updateLinks\<close>, which reads and updates their
  \<^verbatim>\<open>text.markdown\<close>. \<^verbatim>\<open>createBacklinks\<close> reads \<^verbatim>\<open>journalPage.pages.contents[0]\<close>, as of a
  journal entry. The model has both kinds of object: a page, which has a name and a text
  and no \<^verbatim>\<open>pages\<close>, and an entry with the pages of its collection in their order.
\<close>

record regexMatch =
  rm_text :: string
  rm_group2 :: "string option"

datatype journalDocument = PageDocument nat | EntryDocument "nat list"

record fileInfo =
  fi_isOther :: bool
  fi_fileNameNoExt :: string
  fi_journalPage :: "journalDocument option"
  fi_linkRegex :: "(string \<Rightarrow> regexMatch list) list"
  fi_getLink :: "string option \<Rightarrow> string option"

type_synonym bodies = "nat \<Rightarrow> string"

text \<open>A pass either runs to its end or stops at a \<^verbatim>\<open>TypeError\<close>; what it wrote to the store
  before stays written.\<close>

datatype completion = Completed | Threw

subsection \<open>String methods\<close>

text \<open>\<^verbatim>\<open>s.split(c)\<close> for a one-character separator.\<close>

fun splitChar :: "char \<Rightarrow> string \<Rightarrow> string list" where
  "splitChar sep [] = [[]]"
| "splitChar sep (c # cs) =
     (if c = sep then [] # splitChar sep cs
      else (case splitChar sep cs of
              [] \<Rightarrow> [[c]]
            | l # ls \<Rightarrow> (c # l) # ls))"

text \<open>\<^verbatim>\<open>(linkMatch[2] ?? '|').split('|')[1].trim()\<close>: without a second piece the index gives
  \<^verbatim>\<open>undefined\<close> and \<^verbatim>\<open>trim\<close> throws.\<close>

definition aliasOf :: "string option \<Rightarrow> string option" where
  "aliasOf group2 =
     (case splitChar CHR ''|'' (case group2 of None \<Rightarrow> ''|'' | Some g \<Rightarrow> g) of
        a # b # rest \<Rightarrow> Some (trim b)
      | _ \<Rightarrow> None)"

text \<open>\<^verbatim>\<open>s.includes(t)\<close>\<close>

fun includesStr :: "string \<Rightarrow> string \<Rightarrow> bool" where
  "includesStr [] t = (t = [])"
| "includesStr (c # cs) t = (stripPrefix t (c # cs) \<noteq> None \<or> includesStr cs t)"

text \<open>The first occurrence of a text: what stands before it and after it.\<close>

fun splitAtFirst :: "string \<Rightarrow> string \<Rightarrow> (string \<times> string) option" where
  "splitAtFirst pat [] = (if pat = [] then Some ([], []) else None)"
| "splitAtFirst pat (c # cs) =
     (case stripPrefix pat (c # cs) of
        Some after \<Rightarrow> Some ([], after)
      | None \<Rightarrow>
          (case splitAtFirst pat cs of
             None \<Rightarrow> None
           | Some (before, after) \<Rightarrow> Some (c # before, after)))"

text \<open>
  The replacement text of \<^verbatim>\<open>replace\<close> with a string pattern: \<^verbatim>\<open>$$\<close> is a dollar sign,
  \<^verbatim>\<open>$&\<close> the matched text, \<^verbatim>\<open>$`\<close> the text before the match and \<^verbatim>\<open>$'\<close> the text
  after it; there are no groups, so every other dollar sign stands for itself.
\<close>

fun expandReplacement :: "string \<Rightarrow> string \<Rightarrow> string \<Rightarrow> string \<Rightarrow> string" where
  "expandReplacement matched before after [] = []"
| "expandReplacement matched before after [c] = [c]"
| "expandReplacement matched before after (c # d # r) =
     (if c = CHR ''$'' \<and> d = CHR ''$'' then CHR ''$'' # expandReplacement matched before after r
      else if c = CHR ''$'' \<and> d = CHR ''&'' then matched @ expandReplacement matched before after r
      else if c = CHR ''$'' \<and> d = CHR 0x60 then before @ expandReplacement matched before after r
      else if c = CHR ''$'' \<and> d = CHR 0x27 then after @ expandReplacement matched before after r
      else c # expandReplacement matched before after (d # r))"

text \<open>\<^verbatim>\<open>s.replace(pat, replacement)\<close> for a string pattern: the first occurrence only.\<close>

definition jsReplace :: "string \<Rightarrow> string \<Rightarrow> string \<Rightarrow> string" where
  "jsReplace s pat replacement =
     (case splitAtFirst pat s of
        None \<Rightarrow> s
      | Some (before, after) \<Rightarrow> before @ expandReplacement pat before after replacement @ after)"

subsection \<open>The size suffix of an asset reference\<close>

text \<open>
  \<^verbatim>\<open>/\|\d+(x\d+)?\]/gi\<close> at the start of a string. The digits are the longest run; the group
  is taken when an \<open>x\<close> (of either case) and digits follow and the bracket closes them.
  Shorter runs of digits end in front of a digit, where neither \<open>x\<close> nor the bracket fits.
\<close>

definition matchResizeAt :: "string \<Rightarrow> string option" where
  "matchResizeAt s =
     (case s of
        [] \<Rightarrow> None
      | c # t \<Rightarrow>
          (let w = takeWhile isDigit t; r = dropWhile isDigit t
           in if c \<noteq> CHR ''|'' \<or> w = [] \<or> r = [] then None
              else if hd r = CHR '']'' then Some (c # w @ '']'')
              else if hd r = CHR ''x'' \<or> hd r = CHR ''X''
                   then (let h = takeWhile isDigit (tl r); r' = dropWhile isDigit (tl r)
                         in if h \<noteq> [] \<and> r' \<noteq> [] \<and> hd r' = CHR '']''
                            then Some (c # w @ [hd r] @ h @ '']'') else None)
              else None))"

text \<open>\<^verbatim>\<open>resizeMatches[0]\<close>: the leftmost match.\<close>

fun findResize :: "string \<Rightarrow> string option" where
  "findResize [] = None"
| "findResize (c # cs) =
     (case matchResizeAt (c # cs) of Some m \<Rightarrow> Some m | None \<Rightarrow> findResize cs)"

text \<open>Lines 567 to 576: \<^verbatim>\<open>link.replace(/\)$/gi, ` =${dimensionsString})`)\<close> changes a link
  that ends in a closing parenthesis, and only its end.\<close>

definition applyResize :: "string \<Rightarrow> string \<Rightarrow> string" where
  "applyResize matchText link =
     (case findResize matchText of
        None \<Rightarrow> link
      | Some resizeMatch \<Rightarrow>
          (let dimensions = splitChar CHR ''x''
                 (toLowerCase (filter (\<lambda>c. c \<noteq> CHR ''|'' \<and> c \<noteq> CHR '']'') resizeMatch));
               dimensions' = (if length dimensions = 1 then dimensions @ [''*''] else dimensions);
               dimensionsString = joinWith ''x'' dimensions'
           in if link \<noteq> [] \<and> last link = CHR '')''
              then butlast link @ '' ='' @ dimensionsString @ '')''
              else link))"

subsection \<open>updateLinks\<close>

text \<open>The body of the innermost loop, for one match on one page.\<close>

definition rewriteMatch :: "fileInfo \<Rightarrow> nat \<Rightarrow> regexMatch \<Rightarrow> bodies \<Rightarrow> completion \<times> bodies" where
  "rewriteMatch fileInfo page linkMatch st =
     (case aliasOf (rm_group2 linkMatch) of
        None \<Rightarrow> (Threw, st)
      | Some alias \<Rightarrow>
          (case fi_getLink fileInfo (Some alias) of
             None \<Rightarrow> (Completed, st)
           | Some link0 \<Rightarrow>
               (let link = (if fi_isOther fileInfo then applyResize (rm_text linkMatch) link0
                            else link0);
                    newContent = jsReplace (st page) (rm_text linkMatch) link
                in (Completed, st(page := newContent)))))"

fun rewriteMatches :: "fileInfo \<Rightarrow> nat \<Rightarrow> regexMatch list \<Rightarrow> bodies \<Rightarrow> completion \<times> bodies" where
  "rewriteMatches fileInfo page [] st = (Completed, st)"
| "rewriteMatches fileInfo page (m # ms) st =
     (case rewriteMatch fileInfo page m st of
        (Threw, st') \<Rightarrow> (Threw, st')
      | (Completed, st') \<Rightarrow> rewriteMatches fileInfo page ms st')"

text \<open>The loop over the patterns: \<^verbatim>\<open>matchAll\<close> reads the body as it is when the pattern's
  turn comes.\<close>

fun rewritePatterns ::
  "fileInfo \<Rightarrow> nat \<Rightarrow> (string \<Rightarrow> regexMatch list) list \<Rightarrow> bodies \<Rightarrow> completion \<times> bodies" where
  "rewritePatterns fileInfo page [] st = (Completed, st)"
| "rewritePatterns fileInfo page (pattern # patterns) st =
     (case rewriteMatches fileInfo page (pattern (st page)) st of
        (Threw, st') \<Rightarrow> (Threw, st')
      | (Completed, st') \<Rightarrow> rewritePatterns fileInfo page patterns st')"

fun rewritePages :: "fileInfo \<Rightarrow> nat list \<Rightarrow> bodies \<Rightarrow> completion \<times> bodies" where
  "rewritePages fileInfo [] st = (Completed, st)"
| "rewritePages fileInfo (page # pages) st =
     (case rewritePatterns fileInfo page (fi_linkRegex fileInfo) st of
        (Threw, st') \<Rightarrow> (Threw, st')
      | (Completed, st') \<Rightarrow> rewritePages fileInfo pages st')"

definition updateLinks :: "fileInfo \<Rightarrow> nat list \<Rightarrow> bodies \<Rightarrow> completion \<times> bodies" where
  "updateLinks fileInfo allPages st = rewritePages fileInfo allPages st"

subsection \<open>createBacklinks\<close>

text \<open>
  \<^verbatim>\<open>Array.prototype.sort\<close> with a comparator is stable; for a comparator that is a total
  preorder every stable sort gives the same array. The model inserts from the right, each
  element in front of the first one it does not come after.
\<close>

fun insertSorted :: "('a \<Rightarrow> 'a \<Rightarrow> int) \<Rightarrow> 'a \<Rightarrow> 'a list \<Rightarrow> 'a list" where
  "insertSorted cmp x [] = [x]"
| "insertSorted cmp x (y # ys) =
     (if cmp x y \<le> 0 then x # y # ys else y # insertSorted cmp x ys)"

definition jsSort :: "('a \<Rightarrow> 'a \<Rightarrow> int) \<Rightarrow> 'a list \<Rightarrow> 'a list" where
  "jsSort cmp xs = foldr (insertSorted cmp) xs []"

text \<open>\<^verbatim>\<open>journalPage?.pages?.contents[0]\<close>: \<^verbatim>\<open>undefined\<close> for \<^verbatim>\<open>null\<close>, for an object
  without \<^verbatim>\<open>pages\<close> and for an entry without a page.\<close>

definition firstPage :: "journalDocument option \<Rightarrow> nat option" where
  "firstPage journalPage =
     (case journalPage of
        None \<Rightarrow> None
      | Some (PageDocument p) \<Rightarrow> None
      | Some (EntryDocument []) \<Rightarrow> None
      | Some (EntryDocument (p # rest)) \<Rightarrow> Some p)"

text \<open>The condition of the inner loop: the other file's first page contains this file's link.\<close>

definition linksTo :: "bodies \<Rightarrow> fileInfo \<Rightarrow> fileInfo \<Rightarrow> bool" where
  "linksTo st otherFileInfo fileInfo =
     (case firstPage (fi_journalPage otherFileInfo) of
        None \<Rightarrow> False
      | Some page \<Rightarrow>
          (case fi_getLink fileInfo None of
             None \<Rightarrow> False
           | Some link \<Rightarrow> includesStr (st page) link))"

definition backlinkFiles :: "fileInfo list \<Rightarrow> nat \<Rightarrow> bodies \<Rightarrow> fileInfo list" where
  "backlinkFiles files i st =
     map (\<lambda>j. files ! j)
       (filter (\<lambda>j. j \<noteq> i \<and> linksTo st (files ! j) (files ! i)) [0..<length files])"

definition backlinkEntry :: "fileInfo \<Rightarrow> string" where
  "backlinkEntry b = ''- '' @ (case fi_getLink b None of None \<Rightarrow> [] | Some link \<Rightarrow> link)"

text \<open>
  One turn of the outer loop. \<^verbatim>\<open>localeCompare\<close> is a parameter. The update is written to
  the store at once. \<^verbatim>\<open>fileInfo.journalPage.pages.contents[0]\<close> of the file's own
  \<^verbatim>\<open>journalPage\<close> throws on an object without \<^verbatim>\<open>pages\<close>, and reading the text of the
  first page throws when the entry has no page.
\<close>

definition backlinkStep ::
  "(string \<Rightarrow> string \<Rightarrow> int) \<Rightarrow> fileInfo list \<Rightarrow> nat \<Rightarrow> bodies \<Rightarrow> completion \<times> bodies" where
  "backlinkStep localeCompare files i st =
     (case fi_journalPage (files ! i) of
        None \<Rightarrow> (Completed, st)
      | Some journalPage \<Rightarrow>
          (let found = backlinkFiles files i st
           in if found = [] then (Completed, st)
              else (let sorted = jsSort (\<lambda>a b. localeCompare (fi_fileNameNoExt a) (fi_fileNameNoExt b)) found;
                        backLinkList = joinWith [CR, LF] (map backlinkEntry sorted)
                    in (case firstPage (Some journalPage) of
                          None \<Rightarrow> (Threw, st)
                        | Some page \<Rightarrow>
                            (Completed,
                             st(page := st page @ [CR, LF] @ ''#References'' @ [CR, LF] @ backLinkList))))))"

fun backlinkLoop ::
  "(string \<Rightarrow> string \<Rightarrow> int) \<Rightarrow> fileInfo list \<Rightarrow> nat list \<Rightarrow> bodies \<Rightarrow> completion \<times> bodies" where
  "backlinkLoop localeCompare files [] st = (Completed, st)"
| "backlinkLoop localeCompare files (i # rest) st =
     (case backlinkStep localeCompare files i st of
        (Threw, st') \<Rightarrow> (Threw, st')
      | (Completed, st') \<Rightarrow> backlinkLoop localeCompare files rest st')"

definition createBacklinks ::
  "(string \<Rightarrow> string \<Rightarrow> int) \<Rightarrow> fileInfo list \<Rightarrow> bodies \<Rightarrow> completion \<times> bodies" where
  "createBacklinks localeCompare files st =
     backlinkLoop localeCompare files [0..<length files] st"

section \<open>The document store\<close>

text \<open>
  Modelled from the spec: the document store and the container store of the host
  (\<^verbatim>\<open>game.folders\<close>, \<^verbatim>\<open>game.journal\<close>, \<^verbatim>\<open>Folder.create\<close>, \<^verbatim>\<open>JournalEntry.create\<close>,
  \<^verbatim>\<open>JournalEntryPage.create\<close>, \<^verbatim>\<open>update\<close>) are not part of the repository. The spec gives
  them as find-by-id, find-by-name-and-parent, create with an optional caller-supplied
  identifier, and update. The model keeps the documents in lists, in the order of their
  creation; \<^verbatim>\<open>find\<close> and \<^verbatim>\<open>filter\<close> go through them in that order. A folder is at depth 1
  when it has no parent folder. A document created without an identifier gets a fresh one,
  different from every caller-supplied identifier.
\<close>

datatype docId = GivenId string | RandomId nat

record folder =
  fo_id :: string
  fo_name :: string
  fo_type :: string
  fo_parent :: "string option"
  fo_flag :: bool

datatype ownership = OBSERVER | NONE

record journalEntry =
  je_id :: docId
  je_name :: string
  je_folder :: "string option"
  je_ownership :: "ownership option"
  je_flag :: bool

record page =
  pg_journal :: docId
  pg_id :: docId
  pg_name :: string
  pg_markdown :: string

record store =
  st_folders :: "folder list"
  st_journals :: "journalEntry list"
  st_pages :: "page list"
  st_nextRandom :: nat
  st_uploads :: "string list"

text \<open>A call returns a value or throws; the store it leaves behind is given in both cases.\<close>

datatype 'a outcome = Returned 'a | Thrown

text \<open>\<^verbatim>\<open>documentExists(collection, id)\<close> and \<^verbatim>\<open>collection.get(id)\<close> on the folders.\<close>

definition folderById :: "store \<Rightarrow> string \<Rightarrow> folder option" where
  "folderById st i = find (\<lambda>f. fo_id f = i) (st_folders st)"

definition journalById :: "store \<Rightarrow> docId \<Rightarrow> journalEntry option" where
  "journalById st i = find (\<lambda>j. je_id j = i) (st_journals st)"

section \<open>util.ts\<close>

text \<open>
  \<^verbatim>\<open>getFolder\<close>. With a parent identifier the parent is fetched and its children are
  filtered by name; a parent that is not in the store makes \<^verbatim>\<open>parent.children\<close> throw.
  Without one, the journal folders at depth 1 are searched.
\<close>

definition getFolder :: "string \<Rightarrow> string option \<Rightarrow> store \<Rightarrow> folder option outcome" where
  "getFolder folderName parentFolderID st =
     (case parentFolderID of
        Some pid \<Rightarrow>
          (case folderById st pid of
             None \<Rightarrow> Thrown
           | Some parent \<Rightarrow>
               (let matches = filter (\<lambda>c. fo_name c = folderName)
                                (filter (\<lambda>c. fo_parent c = Some (fo_id parent)) (st_folders st))
                in Returned (if length matches > 0 then Some (hd matches) else None)))
      | None \<Rightarrow>
          Returned (find (\<lambda>f. fo_type f = ''JournalEntry'' \<and> fo_parent f = None
                               \<and> fo_name f = folderName) (st_folders st)))"

text \<open>\<^verbatim>\<open>createFolder\<close>: the folder stored under the deterministic identifier of the full
  path, or a new one with that identifier.\<close>

definition createFolder ::
  "string \<Rightarrow> string option \<Rightarrow> string list \<Rightarrow> store \<Rightarrow> folder option \<times> store" where
  "createFolder folderName parentFolderID folderPath st =
     (let fullPath = folderPath @ [folderName];
          deterministicId = generateFolderUUID (map charCodes fullPath)
      in (case folderById st deterministicId of
            Some existing \<Rightarrow> (Some existing, st)
          | None \<Rightarrow>
              (let created = \<lparr> fo_id = deterministicId, fo_name = folderName,
                               fo_type = ''JournalEntry'', fo_parent = parentFolderID,
                               fo_flag = True \<rparr>
               in (Some created, st\<lparr> st_folders := st_folders st @ [created] \<rparr>))))"

text \<open>\<^verbatim>\<open>createOrGetFolder\<close>. The name may be \<^verbatim>\<open>null\<close>.\<close>

definition createOrGetFolder ::
  "string option \<Rightarrow> string option \<Rightarrow> string list \<Rightarrow> store \<Rightarrow> folder option outcome \<times> store" where
  "createOrGetFolder folderName parentFolderID folderPath st =
     (case folderName of
        None \<Rightarrow> (Returned None, st)
      | Some name \<Rightarrow>
          if name = [] then (Returned None, st)
          else (case getFolder name parentFolderID st of
                  Thrown \<Rightarrow> (Thrown, st)
                | Returned (Some found) \<Rightarrow> (Returned (Some found), st)
                | Returned None \<Rightarrow>
                    (case createFolder name parentFolderID folderPath st of
                       (folder, st') \<Rightarrow> (Returned folder, st'))))"

section \<open>The import (lava-flow.ts)\<close>

text \<open>
  A file of the vault as the import reads it (\<^verbatim>\<open>FileInfo\<close>, not among the sources): its
  class, \<^verbatim>\<open>originalFile.name\<close>, \<^verbatim>\<open>originalFile.webkitRelativePath\<close>,
  \<^verbatim>\<open>originalFile.text()\<close> and \<^verbatim>\<open>fileNameNoExt\<close>. The spec has the items as a closed
  variant of markdown items and other items.
\<close>

datatype fileKind = MDFile | OtherFile

record vaultFile =
  vf_kind :: fileKind
  vf_name :: string
  vf_relativePath :: string
  vf_content :: string
  vf_fileNameNoExt :: string

text \<open>\<^verbatim>\<open>FolderInfo\<close> (not among the sources): a name, the child folders and the files.\<close>

datatype folderInfo = FolderInfo string "folderInfo list" "vaultFile list"

fun folderName :: "folderInfo \<Rightarrow> string" where
  "folderName (FolderInfo n cs fs) = n"

fun childFolders :: "folderInfo \<Rightarrow> folderInfo list" where
  "childFolders (FolderInfo n cs fs) = cs"

fun folderFiles :: "folderInfo \<Rightarrow> vaultFile list" where
  "folderFiles (FolderInfo n cs fs) = fs"

text \<open>Modelled from the spec: \<^verbatim>\<open>getFilesRecursive\<close> is not among the sources; the spec
  speaks of the items anywhere in the subtree of the folder.\<close>

fun getFilesRecursive :: "folderInfo \<Rightarrow> vaultFile list" where
  "getFilesRecursive (FolderInfo n cs fs) = fs @ concat (map getFilesRecursive cs)"

text \<open>The fields of \<^verbatim>\<open>LavaFlowSettings\<close> that the import reads.\<close>

record settings =
  combineNotes :: bool
  combineNotesNoSubfolders :: bool
  playerObserve :: bool
  overwrite :: bool
  ignoreDuplicate :: bool
  importNonMarkdown :: bool
  stripObsidianComments :: bool
  skipDuplicateImages :: bool

definition isMD :: "vaultFile \<Rightarrow> bool" where
  "isMD f = (vf_kind f = MDFile)"

subsection \<open>Journals and pages\<close>

text \<open>An absent or empty \<^verbatim>\<open>filePath\<close> is falsy.\<close>

definition truthy :: "string option \<Rightarrow> bool" where
  "truthy s = (case s of None \<Rightarrow> False | Some t \<Rightarrow> t \<noteq> [])"

definition createJournal ::
  "string \<Rightarrow> folder option \<Rightarrow> bool \<Rightarrow> string option \<Rightarrow> store \<Rightarrow> journalEntry \<times> store" where
  "createJournal journalName parentFolder observe filePath st =
     (let deterministicId =
            (if truthy filePath then Some (GivenId (generateJournalUUID (charCodes (the filePath))))
             else None);
          existing = (case deterministicId of None \<Rightarrow> None | Some i \<Rightarrow> journalById st i)
      in (case existing of
            Some entry \<Rightarrow> (entry, st)
          | None \<Rightarrow>
              (let entry = \<lparr> je_id = (case deterministicId of
                                         Some i \<Rightarrow> i
                                       | None \<Rightarrow> RandomId (st_nextRandom st)),
                             je_name = journalName,
                             je_folder = map_option fo_id parentFolder,
                             je_ownership = (if observe then Some OBSERVER else None),
                             je_flag = True \<rparr>
               in (entry,
                   st\<lparr> st_journals := st_journals st @ [entry],
                       st_nextRandom := (case deterministicId of
                                           Some i \<Rightarrow> st_nextRandom st
                                         | None \<Rightarrow> Suc (st_nextRandom st)) \<rparr>))))"

text \<open>\<^verbatim>\<open>journalEntry.pages\<close>: the pages of the store that belong to the entry.\<close>

definition pagesOf :: "store \<Rightarrow> journalEntry \<Rightarrow> page list" where
  "pagesOf st entry = filter (\<lambda>p. pg_journal p = je_id entry) (st_pages st)"

definition createJournalPage ::
  "string \<Rightarrow> string \<Rightarrow> journalEntry \<Rightarrow> string option \<Rightarrow> store \<Rightarrow> page \<times> store" where
  "createJournalPage pageName content entry filePath st =
     (let deterministicId =
            (if truthy filePath
             then Some (GivenId (generatePageUUID (charCodes (the filePath)) (charCodes pageName)))
             else None);
          existingPage = (case deterministicId of
                            None \<Rightarrow> None
                          | Some i \<Rightarrow> find (\<lambda>p. pg_id p = i) (pagesOf st entry))
      in (case existingPage of
            Some p \<Rightarrow> (p, st)
          | None \<Rightarrow>
              (let p = \<lparr> pg_journal = je_id entry,
                         pg_id = (case deterministicId of
                                    Some i \<Rightarrow> i
                                  | None \<Rightarrow> RandomId (st_nextRandom st)),
                         pg_name = pageName,
                         pg_markdown = content \<rparr>
               in (p,
                   st\<lparr> st_pages := st_pages st @ [p],
                       st_nextRandom := (case deterministicId of
                                           Some i \<Rightarrow> st_nextRandom st
                                         | None \<Rightarrow> Suc (st_nextRandom st)) \<rparr>))))"

text \<open>\<^verbatim>\<open>page.update({ text: { markdown: content } })\<close>\<close>

definition updateJournalPage :: "page \<Rightarrow> string \<Rightarrow> store \<Rightarrow> store" where
  "updateJournalPage p content st =
     st\<lparr> st_pages := map (\<lambda>q. if pg_journal q = pg_journal p \<and> pg_id q = pg_id p
                                 then q\<lparr> pg_markdown := content \<rparr> else q) (st_pages st) \<rparr>"

definition setOwnership :: "journalEntry \<Rightarrow> ownership \<Rightarrow> store \<Rightarrow> store" where
  "setOwnership entry level st =
     st\<lparr> st_journals := map (\<lambda>j. if je_id j = je_id entry
                                    then j\<lparr> je_ownership := Some level \<rparr> else j) (st_journals st) \<rparr>"

subsection \<open>importMarkdownFile\<close>

text \<open>\<^verbatim>\<open>pathParts.length > 1 ? pathParts.slice(1).join('/') : webkitRelativePath\<close>\<close>

definition pathWithoutRoot :: "string \<Rightarrow> string" where
  "pathWithoutRoot relativePath =
     (let pathParts = splitChar CHR ''/'' relativePath
      in if length pathParts > 1 then joinWith ''/'' (tl pathParts) else relativePath)"

text \<open>The page that the function assigns to \<^verbatim>\<open>file.journalPage\<close> is its result here. A
  page that was found and overwritten is the same object after its update, so the result
  has the new body.\<close>

definition importMarkdownFile ::
  "vaultFile \<Rightarrow> settings \<Rightarrow> folder option \<Rightarrow> journalEntry option \<Rightarrow> store \<Rightarrow> page option \<times> store" where
  "importMarkdownFile file s parentFolder parentJournal st =
     (let pageName = vf_fileNameNoExt file;
          journalName = (case parentJournal of Some pj \<Rightarrow> je_name pj | None \<Rightarrow> pageName);
          filePath = pathWithoutRoot (vf_relativePath file);
          journal =
            (case parentJournal of
               Some pj \<Rightarrow> None
             | None \<Rightarrow>
                 (case journalById st (GivenId (generateJournalUUID (charCodes filePath))) of
                    Some j \<Rightarrow> Some j
                  | None \<Rightarrow>
                      find (\<lambda>j. je_name j = journalName \<and> je_folder j = map_option fo_id parentFolder)
                        (st_journals st)));
          (finalJournal, st1) =
            (case journal of
               Some j \<Rightarrow> (j, st)
             | None \<Rightarrow>
                 (case parentJournal of
                    Some pj \<Rightarrow> (pj, st)
                  | None \<Rightarrow> createJournal journalName parentFolder (playerObserve s) (Some filePath) st));
          parsed = parseFrontmatterAndBody (vf_content file) (stripObsidianComments s);
          found = find (\<lambda>p. pg_name p = pageName) (pagesOf st1 finalJournal);
          (journalPage, st2) =
            (if found \<noteq> None \<and> overwrite s
             then (Some ((the found)\<lparr> pg_markdown := pf_body parsed \<rparr>),
                   updateJournalPage (the found) (pf_body parsed) st1)
             else if found = None \<or> (\<not> overwrite s \<and> \<not> ignoreDuplicate s)
             then (case createJournalPage pageName (pf_body parsed) finalJournal (Some filePath) st1 of
                     (p, st') \<Rightarrow> (Some p, st'))
             else (found, st1));
          st3 = (if parentJournal = None
                 then setOwnership finalJournal (if pf_isPublic parsed then OBSERVER else NONE) st2
                 else st2)
      in (journalPage, st3))"

subsection \<open>importOtherFile and importFile\<close>

text \<open>Modelled from the spec: the asset storage is not part of the repository; an upload is
  recorded by the name of the file. The result says whether the file was skipped.\<close>

definition importOtherFile ::
  "vaultFile \<Rightarrow> settings \<Rightarrow> (string \<rightharpoonup> string) \<Rightarrow> store \<Rightarrow> bool \<times> store" where
  "importOtherFile file s existingImagePaths st =
     (if skipDuplicateImages s \<and> existingImagePaths (vf_name file) \<noteq> None then (True, st)
      else (False, st\<lparr> st_uploads := st_uploads st @ [vf_name file] \<rparr>))"

record importStats =
  totalImages :: nat
  skippedImages :: nat
  assignedPages :: "(string \<times> page option) list"

definition importFile ::
  "vaultFile \<Rightarrow> settings \<Rightarrow> folder option \<Rightarrow> journalEntry option \<Rightarrow> (string \<rightharpoonup> string)
     \<Rightarrow> store \<Rightarrow> importStats \<times> store" where
  "importFile file s rootFolder parentJournal existingImagePaths st =
     (if vf_kind file = MDFile
      then (case importMarkdownFile file s rootFolder parentJournal st of
              (p, st') \<Rightarrow>
                (\<lparr> totalImages = 0, skippedImages = 0,
                   assignedPages = [(vf_relativePath file, p)] \<rparr>, st'))
      else if importNonMarkdown s \<and> vf_kind file = OtherFile
      then (case importOtherFile file s existingImagePaths st of
              (wasSkipped, st') \<Rightarrow>
                (\<lparr> totalImages = 1, skippedImages = (if wasSkipped then 1 else 0),
                   assignedPages = [] \<rparr>, st'))
      else (\<lparr> totalImages = 0, skippedImages = 0, assignedPages = [] \<rparr>, st))"

definition addStats :: "importStats \<Rightarrow> importStats \<Rightarrow> importStats" where
  "addStats a b =
     \<lparr> totalImages = totalImages a + totalImages b,
       skippedImages = skippedImages a + skippedImages b,
       assignedPages = assignedPages a @ assignedPages b \<rparr>"

fun importFiles ::
  "vaultFile list \<Rightarrow> settings \<Rightarrow> folder option \<Rightarrow> journalEntry option \<Rightarrow> (string \<rightharpoonup> string)
     \<Rightarrow> importStats \<Rightarrow> store \<Rightarrow> importStats \<times> store" where
  "importFiles [] s parentFolder parentJournal existingImagePaths acc st = (acc, st)"
| "importFiles (f # fs) s parentFolder parentJournal existingImagePaths acc st =
     (case importFile f s parentFolder parentJournal existingImagePaths st of
        (stats, st') \<Rightarrow>
          importFiles fs s parentFolder parentJournal existingImagePaths (addStats acc stats) st')"

subsection \<open>importFolder\<close>

definition hasMDFiles :: "folderInfo \<Rightarrow> bool" where
  "hasMDFiles folder = (length (filter isMD (folderFiles folder)) > 0)"

definition combineFiles :: "settings \<Rightarrow> folderInfo \<Rightarrow> bool" where
  "combineFiles s folder =
     (combineNotes s \<and> hasMDFiles folder
      \<and> (\<not> combineNotesNoSubfolders s \<or> length (childFolders folder) < 1))"

definition oneJournalPerFile :: "settings \<Rightarrow> folderInfo \<Rightarrow> bool" where
  "oneJournalPerFile s folder =
     (\<not> combineFiles s folder \<and> folderName folder \<noteq> []
      \<and> length (filter isMD (getFilesRecursive folder)) > 0)"

text \<open>Lines 191 to 195: the journal of a combined folder.\<close>

definition combinedJournal ::
  "settings \<Rightarrow> folderInfo \<Rightarrow> folder option \<Rightarrow> string list \<Rightarrow> store \<Rightarrow> journalEntry option \<times> store" where
  "combinedJournal s folder parentFolder currentPath st =
     (if combineFiles s folder
      then (let folderPath = (if folderName folder \<noteq> []
                              then joinWith ''/'' (currentPath @ [folderName folder])
                              else joinWith ''/'' currentPath)
            in (case createJournal (folderName folder) parentFolder (playerObserve s)
                       (Some folderPath) st of
                  (entry, st') \<Rightarrow> (Some entry, st')))
      else (None, st))"

text \<open>Lines 197 to 205: the folder of this level. Without the call the parent folder stays.\<close>

definition containerStep ::
  "settings \<Rightarrow> folderInfo \<Rightarrow> folder option \<Rightarrow> string list \<Rightarrow> store \<Rightarrow> folder option outcome \<times> store" where
  "containerStep s folder parentFolder currentPath st =
     (if oneJournalPerFile s folder
         \<or> (combineFiles s folder
             \<and> length (filter (\<lambda>childFolder.
                          length (filter isMD (getFilesRecursive childFolder)) > 0)
                        (childFolders folder)) > 0)
      then createOrGetFolder (Some (folderName folder)) (map_option fo_id parentFolder) currentPath st
      else (Returned parentFolder, st))"

definition emptyStats :: importStats where
  "emptyStats = \<lparr> totalImages = 0, skippedImages = 0, assignedPages = [] \<rparr>"

fun importFolder ::
  "folderInfo \<Rightarrow> settings \<Rightarrow> folder option \<Rightarrow> (string \<rightharpoonup> string) \<Rightarrow> string list \<Rightarrow> store
     \<Rightarrow> importStats outcome \<times> store"
and importChildFolders ::
  "folderInfo list \<Rightarrow> settings \<Rightarrow> folder option \<Rightarrow> (string \<rightharpoonup> string) \<Rightarrow> string list
     \<Rightarrow> importStats \<Rightarrow> store \<Rightarrow> importStats outcome \<times> store" where
  "importFolder (FolderInfo name children fs) s parentFolder existingImagePaths currentPath st =
     (case combinedJournal s (FolderInfo name children fs) parentFolder currentPath st of
        (parentJournal, st1) \<Rightarrow>
          (case containerStep s (FolderInfo name children fs) parentFolder currentPath st1 of
             (Thrown, st2) \<Rightarrow> (Thrown, st2)
           | (Returned parentFolder', st2) \<Rightarrow>
               (case importFiles fs s parentFolder' parentJournal existingImagePaths emptyStats st2 of
                  (stats, st3) \<Rightarrow>
                    importChildFolders children s parentFolder' existingImagePaths
                      (if name \<noteq> [] then currentPath @ [name] else currentPath) stats st3)))"
| "importChildFolders [] s parentFolder existingImagePaths childPath acc st = (Returned acc, st)"
| "importChildFolders (c # cs) s parentFolder existingImagePaths childPath acc st =
     (case importFolder c s parentFolder existingImagePaths childPath st of
        (Thrown, st') \<Rightarrow> (Thrown, st')
      | (Returned stats, st') \<Rightarrow>
          importChildFolders cs s parentFolder existingImagePaths childPath (addStats acc stats) st')"

section \<open>Auxiliary definitions used in the proofs\<close>

text \<open>Reading a base-36 string back as a number, and the identity as a function of the
  first hash value before \<^verbatim>\<open>Math.abs\<close>.\<close>

definition digitValue :: "char \<Rightarrow> nat" where
  "digitValue c =
     length (takeWhile (\<lambda>x. x \<noteq> c) ''0123456789abcdefghijklmnopqrstuvwxyz'') mod 36"

definition uuidOfHash :: "int \<Rightarrow> string" where
  "uuidOfHash h =
     substring0 (toBase36 \<bar>h\<bar> 6 @ toBase36 \<bar>hashLoop h (charCodes ''salt1'')\<bar> 5
                 @ toBase36 \<bar>hashLoop h (charCodes ''salt2'')\<bar> 5) 16"

definition parseBase36 :: "string \<Rightarrow> nat" where
  "parseBase36 s = foldl (\<lambda>acc c. 36 * acc + digitValue c) 0 s"

section \<open>Example data\<close>

text \<open>Two notes, the second of which links to the first, and a comparator that is a total
  preorder (by length); they serve as concrete inputs below. In \<open>noteA\<close> and \<open>noteB\<close> the
  object in \<^verbatim>\<open>journalPage\<close> is the page, as the import leaves it; in \<open>entryA\<close> and
  \<open>entryB\<close> it is an entry with that page.\<close>

definition noteA :: fileInfo where
  "noteA = \<lparr>fi_isOther = False, fi_fileNameNoExt = ''Note A'',
            fi_journalPage = Some (PageDocument 0),
            fi_linkRegex = [], fi_getLink = (\<lambda>alias. Some ''@Doc[a]'')\<rparr>"

definition noteB :: fileInfo where
  "noteB = \<lparr>fi_isOther = False, fi_fileNameNoExt = ''Note B'',
            fi_journalPage = Some (PageDocument 1),
            fi_linkRegex = [], fi_getLink = (\<lambda>alias. Some ''@Doc[b]'')\<rparr>"

definition entryA :: fileInfo where
  "entryA = noteA\<lparr>fi_journalPage := Some (EntryDocument [0])\<rparr>"

definition entryB :: fileInfo where
  "entryB = noteB\<lparr>fi_journalPage := Some (EntryDocument [1])\<rparr>"

text \<open>An image of the vault with its link.\<close>

definition imageFile :: fileInfo where
  "imageFile = \<lparr>fi_isOther = True, fi_fileNameNoExt = ''img'', fi_journalPage = None,
                fi_linkRegex = [], fi_getLink = (\<lambda>alias. Some ''![img.png](assets/img.png)'')\<rparr>"

definition twoBodies :: bodies where
  "twoBodies = (\<lambda>page. if page = 1 then ''see @Doc[a]'' else ''Alpha'')"

definition byLength :: "string \<Rightarrow> string \<Rightarrow> int" where
  "byLength a b = int (length a) - int (length b)"

text \<open>A store whose only folder carries the deterministic identifier of the path
  \<open>Notes\<close> under another name; empty and small stores; settings with and without
  combining; a vault with one note in its root, and one with a note in a child folder as
  well.\<close>

definition renamedFolder :: folder where
  "renamedFolder = \<lparr> fo_id = generateFolderUUID (map charCodes [''Notes'']), fo_name = ''Renamed'',
                     fo_type = ''JournalEntry'', fo_parent = None, fo_flag = True \<rparr>"

definition renamedStore :: store where
  "renamedStore = \<lparr> st_folders = [renamedFolder], st_journals = [], st_pages = [],
                    st_nextRandom = 0, st_uploads = [] \<rparr>"

definition emptyStore :: store where
  "emptyStore = \<lparr> st_folders = [], st_journals = [], st_pages = [], st_nextRandom = 0,
                   st_uploads = [] \<rparr>"

definition combineSettings :: settings where
  "combineSettings = \<lparr> combineNotes = True, combineNotesNoSubfolders = False,
       playerObserve = False, overwrite = False, ignoreDuplicate = False,
       importNonMarkdown = False, stripObsidianComments = False, skipDuplicateImages = False \<rparr>"

definition separateSettings :: settings where
  "separateSettings = combineSettings\<lparr> combineNotes := False \<rparr>"

definition fileA :: vaultFile where
  "fileA = \<lparr> vf_kind = MDFile, vf_name = ''a.md'', vf_relativePath = ''vault/a.md'',
             vf_content = ''Hello'', vf_fileNameNoExt = ''a'' \<rparr>"

definition fileB :: vaultFile where
  "fileB = \<lparr> vf_kind = MDFile, vf_name = ''b.md'', vf_relativePath = ''vault/sub/b.md'',
             vf_content = ''World'', vf_fileNameNoExt = ''b'' \<rparr>"

definition subFolder :: folderInfo where
  "subFolder = FolderInfo ''sub'' [] [fileB]"

definition rootOnly :: folderInfo where
  "rootOnly = FolderInfo [] [] [fileA]"

definition rootWithChild :: folderInfo where
  "rootWithChild = FolderInfo [] [subFolder] [fileA]"

definition vaultFolder :: folder where
  "vaultFolder = \<lparr> fo_id = generateFolderUUID (map charCodes [''Vault'']), fo_name = ''Vault'',
                   fo_type = ''JournalEntry'', fo_parent = None, fo_flag = True \<rparr>"

definition vaultStore :: store where
  "vaultStore = \<lparr> st_folders = [vaultFolder], st_journals = [], st_pages = [],
                  st_nextRandom = 0, st_uploads = [] \<rparr>"

section \<open>The identity is sixteen base-36 characters\<close>

lemma digit36_alnum:
  "d < 36 \<Longrightarrow> digit36 d \<in> set ''0123456789abcdefghijklmnopqrstuvwxyz''"
  unfolding digit36_def by (rule nth_mem) simp

lemma toString36_alnum:
  "set (toString36 n) \<subseteq> set ''0123456789abcdefghijklmnopqrstuvwxyz''"
proof (induction n rule: toString36.induct)
  case (1 n)
  show ?case
  proof (cases "n < 36")
    case True
    then show ?thesis
      using digit36_alnum [of n] by (subst toString36.simps) simp
  next
    case False
    have "n mod 36 < 36" by simp
    then have "digit36 (n mod 36) \<in> set ''0123456789abcdefghijklmnopqrstuvwxyz''"
      by (rule digit36_alnum)
    with False "1.IH" show ?thesis
      by (subst toString36.simps) simp
  qed
qed

lemma toBase36_alnum:
  "set (toBase36 num len) \<subseteq> set ''0123456789abcdefghijklmnopqrstuvwxyz''"
proof -
  have "set (replicate (len - length (toString36 (nat num))) CHR ''0'') \<subseteq> {CHR ''0''}"
    by auto
  moreover have "{CHR ''0''} \<subseteq> set ''0123456789abcdefghijklmnopqrstuvwxyz''"
    by simp
  ultimately have "set (replicate (len - length (toString36 (nat num))) CHR ''0'')
          \<subseteq> set ''0123456789abcdefghijklmnopqrstuvwxyz''"
    by (rule order_trans)
  with toString36_alnum [of "nat num"] show ?thesis
    unfolding toBase36_def padStart_def by simp
qed

lemma toBase36_length: "len \<le> length (toBase36 num len)"
  unfolding toBase36_def padStart_def by simp

text \<open>
  C1. For every namespace and every path, \<open>generateDeterministicUUID\<close> returns exactly
  sixteen characters, each of them one of the base-36 digits \<open>0-9a-z\<close>. The result is a
  function of the two strings alone: the model has no other input, as the source reads no
  state, clock or random source.
\<close>

theorem identity_sixteen_base36:
  "length (generateDeterministicUUID path namespace) = 16 \<and>
   set (generateDeterministicUUID path namespace)
     \<subseteq> set ''0123456789abcdefghijklmnopqrstuvwxyz''"
proof -
  define input where "input = namespace @ charCodes '':'' @ path"
  define part1 where "part1 = toBase36 (hashString input) 6"
  define part2 where "part2 = toBase36 (hashString (input @ charCodes ''salt1'')) 5"
  define part3 where "part3 = toBase36 (hashString (input @ charCodes ''salt2'')) 5"
  have id: "generateDeterministicUUID path namespace = take 16 (part1 @ part2 @ part3)"
    unfolding generateDeterministicUUID_def Let_def substring0_def
      input_def part1_def part2_def part3_def ..
  have "6 \<le> length part1" "5 \<le> length part2" "5 \<le> length part3"
    unfolding part1_def part2_def part3_def by (rule toBase36_length)+
  then have len: "length (take 16 (part1 @ part2 @ part3)) = 16"
    by simp
  have "set (part1 @ part2 @ part3) \<subseteq> set ''0123456789abcdefghijklmnopqrstuvwxyz''"
    using toBase36_alnum unfolding part1_def part2_def part3_def
    by (simp del: set_simps)
  then have "set (take 16 (part1 @ part2 @ part3))
               \<subseteq> set ''0123456789abcdefghijklmnopqrstuvwxyz''"
    using set_take_subset by (rule order_trans [rotated])
  with len id show ?thesis by simp
qed

theorem identity_sixteen_base36_witness:
  "length (generateDeterministicUUID (charCodes ''notes/my-note.md'') (charCodes ''page'')) = 16 \<and>
   set (generateDeterministicUUID (charCodes ''notes/my-note.md'') (charCodes ''page''))
     \<subseteq> set ''0123456789abcdefghijklmnopqrstuvwxyz''"
  by (rule identity_sixteen_base36)

section \<open>The three namespaces never share an identity\<close>

lemma ToInt32_range: "- 2147483648 \<le> ToInt32 x \<and> ToInt32 x < 2147483648"
  unfolding ToInt32_def by simp

lemma ToInt32_mod: "ToInt32 x mod 4294967296 = x mod 4294967296"
  unfolding ToInt32_def by (simp add: mod_simps)

lemma ToInt32_mod16: "ToInt32 x mod 16 = x mod 16"
proof -
  have "ToInt32 x mod 4294967296 mod 16 = x mod 4294967296 mod 16"
    by (simp only: ToInt32_mod)
  then show ?thesis by (simp add: mod_mod_cancel)
qed

lemma ToInt32_cong: "x mod 4294967296 = y mod 4294967296 \<Longrightarrow> ToInt32 x = ToInt32 y"
  unfolding ToInt32_def by (metis mod_add_left_eq)

lemma hashStep_lin: "hashStep h c = ToInt32 (31 * h + int c)"
  unfolding hashStep_def
proof (rule ToInt32_cong)
  have "(ToInt32 (h * 32) - h + int c) mod 4294967296
      = (ToInt32 (h * 32) mod 4294967296 - h + int c) mod 4294967296"
    by (metis mod_add_left_eq mod_diff_left_eq)
  also have "\<dots> = ((h * 32) mod 4294967296 - h + int c) mod 4294967296"
    by (simp only: ToInt32_mod)
  also have "\<dots> = (h * 32 - h + int c) mod 4294967296"
    by (metis mod_add_left_eq mod_diff_left_eq)
  also have "h * 32 - h + int c = 31 * h + int c"
    by simp
  finally show "(ToInt32 (h * 32) - h + int c) mod 4294967296 = (31 * h + int c) mod 4294967296" .
qed

lemma hashStep_mod16: "hashStep h c mod 16 = (int c - h) mod 16"
proof -
  have "hashStep h c mod 16 = (31 * h + int c) mod 16"
    by (simp only: hashStep_lin ToInt32_mod16)
  also have "31 * h + int c = (int c - h) + (2 * h) * 16"
    by simp
  also have "((int c - h) + (2 * h) * 16) mod 16 = (int c - h) mod 16"
    by (rule mod_mult_self1)
  finally show ?thesis .
qed

lemma hashStep_diff8:
  assumes "(a - b) mod 16 = 8"
  shows "(hashStep a c - hashStep b c) mod 16 = 8"
proof -
  have "(hashStep a c - hashStep b c) mod 16 = (hashStep a c mod 16 - hashStep b c mod 16) mod 16"
    by (simp add: mod_diff_eq)
  also have "\<dots> = ((int c - a) mod 16 - (int c - b) mod 16) mod 16"
    by (simp only: hashStep_mod16)
  also have "\<dots> = (b - a) mod 16"
    by (simp add: mod_diff_eq)
  also have "\<dots> = 8"
    using assms by presburger
  finally show ?thesis .
qed

lemma hashStep_diff_odd:
  assumes "(a - b) mod 2 = 1"
  shows "(hashStep a c - hashStep b c) mod 2 = 1"
proof -
  have "(hashStep a c - hashStep b c) mod 16 = (hashStep a c mod 16 - hashStep b c mod 16) mod 16"
    by (simp add: mod_diff_eq)
  also have "\<dots> = ((int c - a) mod 16 - (int c - b) mod 16) mod 16"
    by (simp only: hashStep_mod16)
  also have "\<dots> = (b - a) mod 16"
    by (simp add: mod_diff_eq)
  finally have "(hashStep a c - hashStep b c) mod 16 mod 2 = (b - a) mod 16 mod 2"
    by simp
  then have "(hashStep a c - hashStep b c) mod 2 = (b - a) mod 2"
    by (simp add: mod_mod_cancel)
  with assms show ?thesis by presburger
qed

lemma hashLoop_diff8:
  "(a - b) mod 16 = 8 \<Longrightarrow> (hashLoop a s - hashLoop b s) mod 16 = 8"
proof (induction s arbitrary: a b)
  case Nil
  then show ?case by simp
next
  case (Cons c s)
  from Cons.prems have "(hashStep a c - hashStep b c) mod 16 = 8"
    by (rule hashStep_diff8)
  then have "(hashLoop (hashStep a c) s - hashLoop (hashStep b c) s) mod 16 = 8"
    by (rule Cons.IH)
  then show ?case by simp
qed

lemma hashLoop_diff_odd:
  "(a - b) mod 2 = 1 \<Longrightarrow> (hashLoop a s - hashLoop b s) mod 2 = 1"
proof (induction s arbitrary: a b)
  case Nil
  then show ?case by simp
next
  case (Cons c s)
  from Cons.prems have "(hashStep a c - hashStep b c) mod 2 = 1"
    by (rule hashStep_diff_odd)
  then have "(hashLoop (hashStep a c) s - hashLoop (hashStep b c) s) mod 2 = 1"
    by (rule Cons.IH)
  then show ?case by simp
qed

lemma hashLoop_append: "hashLoop h (xs @ ys) = hashLoop (hashLoop h xs) ys"
  by (induction xs arbitrary: h) simp_all

lemma hashStep_range: "- 2147483648 \<le> hashStep h c \<and> hashStep h c < 2147483648"
  unfolding hashStep_def by (rule ToInt32_range)

lemma hashLoop_range:
  "- 2147483648 \<le> h \<and> h < 2147483648 \<Longrightarrow>
   - 2147483648 \<le> hashLoop h s \<and> hashLoop h s < 2147483648"
proof (induction s arbitrary: h)
  case Nil
  then show ?case by simp
next
  case (Cons c s)
  have "- 2147483648 \<le> hashLoop (hashStep h c) s \<and> hashLoop (hashStep h c) s < 2147483648"
    using hashStep_range by (rule Cons.IH)
  then show ?case by (simp only: hashLoop.simps)
qed

lemma ToInt32_step: "ToInt32 (31 * ToInt32 y + c) = ToInt32 (31 * y + c)"
proof (rule ToInt32_cong)
  have "(31 * ToInt32 y + c) mod 4294967296 = (31 * (ToInt32 y mod 4294967296) + c) mod 4294967296"
    by (metis mod_add_left_eq mod_mult_right_eq)
  also have "\<dots> = (31 * (y mod 4294967296) + c) mod 4294967296"
    by (simp only: ToInt32_mod)
  also have "\<dots> = (31 * y + c) mod 4294967296"
    by (metis mod_add_left_eq mod_mult_right_eq)
  finally show "(31 * ToInt32 y + c) mod 4294967296 = (31 * y + c) mod 4294967296" .
qed

lemma hashLoop_salt1: "hashLoop h (charCodes ''salt1'') = ToInt32 (28629151 * h + 109202075)"
proof -
  have "hashLoop h (charCodes ''salt1'')
      = ToInt32 (31 * ToInt32 (31 * ToInt32 (31 * ToInt32 (31 * ToInt32 (31 * h + 115) + 97) + 108) + 116) + 49)"
    by (simp add: charCodes_def hashStep_lin)
  also have "\<dots> = ToInt32 (31 * (31 * (31 * (31 * (31 * h + 115) + 97) + 108) + 116) + 49)"
    by (simp only: ToInt32_step)
  also have "31 * (31 * (31 * (31 * (31 * h + 115) + 97) + 108) + 116) + 49 = 28629151 * h + 109202075"
    by simp
  finally show ?thesis .
qed


lemma digits_distinct: "distinct ''0123456789abcdefghijklmnopqrstuvwxyz''"
  by simp

lemma takeWhile_nth_index:
  "distinct xs \<Longrightarrow> i < length xs \<Longrightarrow> length (takeWhile (\<lambda>x. x \<noteq> xs ! i) xs) = i"
proof (induction xs arbitrary: i)
  case Nil
  then show ?case by simp
next
  case (Cons x xs)
  show ?case
  proof (cases i)
    case 0
    then show ?thesis by simp
  next
    case (Suc j)
    with Cons.prems have j: "j < length xs" and d: "distinct xs" and "x \<notin> set xs"
      by simp_all
    then have "xs ! j \<noteq> x"
      using nth_mem by metis
    with Suc Cons.IH [OF d j] show ?thesis by simp
  qed
qed

lemma digitValue_digit36: "d < 36 \<Longrightarrow> digitValue (digit36 d) = d"
  unfolding digitValue_def digit36_def
  using takeWhile_nth_index [OF digits_distinct, of d] by simp

lemma digitValue_less: "digitValue c < 36"
  unfolding digitValue_def by (rule mod_less_divisor) simp

lemma digitValue_zero: "digitValue CHR ''0'' = 0"
  by (simp add: digitValue_def)

lemma parseBase36_snoc: "parseBase36 (s @ [c]) = 36 * parseBase36 s + digitValue c"
  by (simp add: parseBase36_def)

lemma parseBase36_toString36: "parseBase36 (toString36 n) = n"
proof (induction n rule: toString36.induct)
  case (1 n)
  show ?case
  proof (cases "n < 36")
    case True
    then have "toString36 n = [digit36 n]"
      by (subst toString36.simps) simp
    with True show ?thesis
      by (simp add: parseBase36_def digitValue_digit36)
  next
    case False
    then have "toString36 n = toString36 (n div 36) @ [digit36 (n mod 36)]"
      by (subst toString36.simps) simp
    then have "parseBase36 (toString36 n)
        = 36 * parseBase36 (toString36 (n div 36)) + digitValue (digit36 (n mod 36))"
      by (simp only: parseBase36_snoc)
    also have "\<dots> = 36 * (n div 36) + n mod 36"
      using "1.IH" [OF False] by (simp add: digitValue_digit36)
    finally show ?thesis by simp
  qed
qed

lemma parseBase36_zeros: "parseBase36 (replicate k CHR ''0'' @ s) = parseBase36 s"
  unfolding parseBase36_def by (induction k) (simp_all add: digitValue_zero)

lemma parseBase36_toBase36: "parseBase36 (toBase36 x n) = nat x"
  unfolding toBase36_def padStart_def
  by (simp only: parseBase36_zeros parseBase36_toString36)

lemma parseBase36_bound: "parseBase36 s < 36 ^ length s"
proof (induction s rule: rev_induct)
  case Nil
  show ?case by (simp add: parseBase36_def)
next
  case (snoc c s)
  have "parseBase36 (s @ [c]) = 36 * parseBase36 s + digitValue c"
    by (rule parseBase36_snoc)
  moreover have "digitValue c < 36" by (rule digitValue_less)
  moreover from snoc have "parseBase36 s + 1 \<le> 36 ^ length s" by simp
  then have "36 * (parseBase36 s + 1) \<le> 36 * 36 ^ length s"
    by (rule mult_le_mono2)
  ultimately show ?case by simp
qed

lemma length_toString36: "n < 36 ^ k \<Longrightarrow> 0 < k \<Longrightarrow> length (toString36 n) \<le> k"
proof (induction n arbitrary: k rule: toString36.induct)
  case (1 n)
  show ?case
  proof (cases "n < 36")
    case True
    then have "toString36 n = [digit36 n]"
      by (subst toString36.simps) simp
    with "1.prems" show ?thesis by simp
  next
    case False
    then have eq: "toString36 n = toString36 (n div 36) @ [digit36 (n mod 36)]"
      by (subst toString36.simps) simp
    from "1.prems" obtain j where k: "k = Suc j" by (cases k) auto
    with False "1.prems" have "0 < j" by (cases j) auto
    moreover from "1.prems" k have "n div 36 < 36 ^ j"
      by (simp add: less_mult_imp_div_less mult.commute)
    ultimately have "length (toString36 (n div 36)) \<le> j"
      using "1.IH" [OF False] by simp
    with eq k show ?thesis by simp
  qed
qed

lemma length_toBase36_6:
  assumes "0 \<le> x" "x \<le> 2147483648"
  shows "length (toBase36 x 6) = 6"
proof -
  from assms have "nat x < 36 ^ 6" by simp
  then have "length (toString36 (nat x)) \<le> 6"
    by (rule length_toString36) simp
  then show ?thesis
    unfolding toBase36_def padStart_def by simp
qed

lemma length_toBase36_5:
  assumes "0 \<le> x" "x \<le> 2147483648"
  shows "length (toBase36 x 5) = 5 \<or> length (toBase36 x 5) = 6"
proof -
  from assms have "nat x < 36 ^ 6" by simp
  then have "length (toString36 (nat x)) \<le> 6"
    by (rule length_toString36) simp
  then show ?thesis
    unfolding toBase36_def padStart_def by auto
qed


lemma hashLoop_salt1_sum:
  "(hashLoop a (charCodes ''salt1'') + hashLoop (- a) (charCodes ''salt1'')) mod 4294967296
     = 218404150"
proof -
  have "(hashLoop a (charCodes ''salt1'') + hashLoop (- a) (charCodes ''salt1'')) mod 4294967296
      = (ToInt32 (28629151 * a + 109202075) mod 4294967296
         + ToInt32 (28629151 * (- a) + 109202075) mod 4294967296) mod 4294967296"
    by (simp only: hashLoop_salt1 mod_add_eq)
  also have "\<dots> = ((28629151 * a + 109202075) mod 4294967296
         + (28629151 * (- a) + 109202075) mod 4294967296) mod 4294967296"
    by (simp only: ToInt32_mod)
  also have "\<dots> = ((28629151 * a + 109202075) + (28629151 * (- a) + 109202075)) mod 4294967296"
    by (simp only: mod_add_eq)
  also have "(28629151 * a + 109202075) + (28629151 * (- a) + 109202075) = 218404150"
    by simp
  finally show ?thesis by simp
qed

lemma sum_cases:
  fixes z :: int
  assumes "z mod 4294967296 = 218404150" "- 4294967296 \<le> z" "z < 4294967296"
  shows "z = 218404150 \<or> z = - 4076563146"
proof -
  have z: "z = 4294967296 * (z div 4294967296) + z mod 4294967296"
    by simp
  have "(- 4294967296) div 4294967296 \<le> z div (4294967296 :: int)"
    using assms(2) by (intro zdiv_mono1) simp_all
  then have "- 1 \<le> z div 4294967296"
    by simp
  moreover have "z div 4294967296 \<le> 4294967295 div (4294967296 :: int)"
    using assms(3) by (intro zdiv_mono1) simp_all
  then have "z div 4294967296 \<le> 0"
    by simp
  ultimately have "z div 4294967296 = 0 \<or> z div 4294967296 = - 1"
    by linarith
  with z assms(1) show ?thesis by linarith
qed

lemma solve37:
  fixes x d :: int
  assumes "37 * x + d = 218404150" "0 \<le> d" "d < 36"
  shows "x = 5902814 \<and> d = 32"
  using assms by presburger

lemma solve35:
  fixes x d :: int
  assumes "35 * x + d = 218404150" "0 \<le> d" "d < 36"
  shows "x = 6240118 \<and> d = 20"
  using assms by presburger

lemma no_shifted_collision:
  fixes a2 b2 d :: int
  assumes abs: "\<bar>b2\<bar> = 36 * \<bar>a2\<bar> + d" and d: "0 \<le> d" "d < 36"
    and small: "\<bar>a2\<bar> < 60466176"
    and sum: "a2 + b2 = 218404150 \<or> a2 + b2 = - 4076563146"
    and diff: "(a2 - b2) mod 16 = 8 \<or> (b2 - a2) mod 16 = 8"
  shows False
proof -
  consider "0 \<le> a2" "0 \<le> b2" | "a2 < 0" "0 \<le> b2" | "b2 < 0"
    by linarith
  then show False
  proof cases
    case 1
    with abs d sum have "37 * a2 + d = 218404150" by linarith
    then have "a2 = 5902814 \<and> d = 32" using d by (rule solve37)
    with 1 abs have "a2 = 5902814" "b2 = 212501336" by simp_all
    with diff show False by simp
  next
    case 2
    with abs d sum have "35 * (- a2) + d = 218404150" by linarith
    then have "- a2 = 6240118 \<and> d = 20" using d by (rule solve35)
    with 2 abs have "a2 = - 6240118" "b2 = 224644268" by simp_all
    with diff show False by simp
  next
    case 3
    with abs d small sum show False by linarith
  qed
qed


lemma take_parts:
  assumes eq: "take 16 (A1 @ A2 @ A3) = take 16 (B1 @ B2 @ B3)"
    and l1: "length A1 = 6" "length B1 = 6"
    and la: "length A2 = 5 \<or> length A2 = 6" and lb: "length B2 = 5 \<or> length B2 = 6"
    and l3: "5 \<le> length A3" "5 \<le> length B3"
  shows "A1 = B1 \<and> (A2 = B2 \<or> (\<exists>c. B2 = A2 @ [c] \<and> length A2 = 5)
                          \<or> (\<exists>c. A2 = B2 @ [c] \<and> length B2 = 5))"
proof -
  from eq have "take 6 (take 16 (A1 @ A2 @ A3)) = take 6 (take 16 (B1 @ B2 @ B3))"
    by simp
  with l1 have first: "A1 = B1" by simp
  from eq have "drop 6 (take 16 (A1 @ A2 @ A3)) = drop 6 (take 16 (B1 @ B2 @ B3))"
    by simp
  with l1 have rest: "take 10 (A2 @ A3) = take 10 (B2 @ B3)"
    by (simp add: drop_take)
  from l3 obtain x xs y ys where A3: "A3 = x # xs" and B3: "B3 = y # ys"
    by (cases A3; cases B3) auto
  from la lb consider "length A2 = length B2" | "length A2 = 5" "length B2 = 6"
    | "length A2 = 6" "length B2 = 5"
    by auto
  then have "A2 = B2 \<or> (\<exists>c. B2 = A2 @ [c] \<and> length A2 = 5)
                   \<or> (\<exists>c. A2 = B2 @ [c] \<and> length B2 = 5)"
  proof cases
    case 1
    from rest have "take (length A2) (take 10 (A2 @ A3)) = take (length A2) (take 10 (B2 @ B3))"
      by simp
    with 1 la have "A2 = B2" by auto
    then show ?thesis by simp
  next
    case 2
    from rest have "take 6 (take 10 (A2 @ A3)) = take 6 (take 10 (B2 @ B3))"
      by simp
    with 2 A3 have "A2 @ [x] = B2" by simp
    with 2 show ?thesis by auto
  next
    case 3
    from rest have "take 6 (take 10 (A2 @ A3)) = take 6 (take 10 (B2 @ B3))"
      by simp
    with 3 B3 have "A2 = B2 @ [y]" by simp
    with 3 show ?thesis by auto
  qed
  with first show ?thesis by simp
qed

lemma uuidOfHash_parts:
  assumes ra: "- 2147483648 \<le> a \<and> a < 2147483648"
    and rb: "- 2147483648 \<le> b \<and> b < 2147483648"
    and eq: "uuidOfHash a = uuidOfHash b"
  shows "\<bar>a\<bar> = \<bar>b\<bar> \<and>
    (\<bar>hashLoop a (charCodes ''salt1'')\<bar> = \<bar>hashLoop b (charCodes ''salt1'')\<bar>
     \<or> (\<exists>d. 0 \<le> d \<and> d < 36 \<and> \<bar>hashLoop a (charCodes ''salt1'')\<bar> < 60466176 \<and>
            \<bar>hashLoop b (charCodes ''salt1'')\<bar> = 36 * \<bar>hashLoop a (charCodes ''salt1'')\<bar> + d)
     \<or> (\<exists>d. 0 \<le> d \<and> d < 36 \<and> \<bar>hashLoop b (charCodes ''salt1'')\<bar> < 60466176 \<and>
            \<bar>hashLoop a (charCodes ''salt1'')\<bar> = 36 * \<bar>hashLoop b (charCodes ''salt1'')\<bar> + d))"
proof -
  define a2 where "a2 = hashLoop a (charCodes ''salt1'')"
  define b2 where "b2 = hashLoop b (charCodes ''salt1'')"
  define a3 where "a3 = hashLoop a (charCodes ''salt2'')"
  define b3 where "b3 = hashLoop b (charCodes ''salt2'')"
  have r2: "- 2147483648 \<le> a2 \<and> a2 < 2147483648" "- 2147483648 \<le> b2 \<and> b2 < 2147483648"
    unfolding a2_def b2_def using ra rb by (simp_all only: hashLoop_range)
  from eq have e: "take 16 (toBase36 \<bar>a\<bar> 6 @ toBase36 \<bar>a2\<bar> 5 @ toBase36 \<bar>a3\<bar> 5)
      = take 16 (toBase36 \<bar>b\<bar> 6 @ toBase36 \<bar>b2\<bar> 5 @ toBase36 \<bar>b3\<bar> 5)"
    unfolding uuidOfHash_def substring0_def a2_def b2_def a3_def b3_def .
  have l1: "length (toBase36 \<bar>a\<bar> 6) = 6" "length (toBase36 \<bar>b\<bar> 6) = 6"
    using ra rb by (auto intro!: length_toBase36_6)
  have la: "length (toBase36 \<bar>a2\<bar> 5) = 5 \<or> length (toBase36 \<bar>a2\<bar> 5) = 6"
    using r2 by (intro length_toBase36_5) auto
  have lb: "length (toBase36 \<bar>b2\<bar> 5) = 5 \<or> length (toBase36 \<bar>b2\<bar> 5) = 6"
    using r2 by (intro length_toBase36_5) auto
  have l3: "5 \<le> length (toBase36 \<bar>a3\<bar> 5)" "5 \<le> length (toBase36 \<bar>b3\<bar> 5)"
    by (rule toBase36_length)+
  note parts = take_parts [OF e l1 la lb l3]
  from parts have "parseBase36 (toBase36 \<bar>a\<bar> 6) = parseBase36 (toBase36 \<bar>b\<bar> 6)"
    by simp
  then have first: "\<bar>a\<bar> = \<bar>b\<bar>"
    by (simp add: parseBase36_toBase36)
  from parts consider "toBase36 \<bar>a2\<bar> 5 = toBase36 \<bar>b2\<bar> 5"
    | c where "toBase36 \<bar>b2\<bar> 5 = toBase36 \<bar>a2\<bar> 5 @ [c]" "length (toBase36 \<bar>a2\<bar> 5) = 5"
    | c where "toBase36 \<bar>a2\<bar> 5 = toBase36 \<bar>b2\<bar> 5 @ [c]" "length (toBase36 \<bar>b2\<bar> 5) = 5"
    by blast
  then have "\<bar>a2\<bar> = \<bar>b2\<bar>
     \<or> (\<exists>d. 0 \<le> d \<and> d < 36 \<and> \<bar>a2\<bar> < 60466176 \<and> \<bar>b2\<bar> = 36 * \<bar>a2\<bar> + d)
     \<or> (\<exists>d. 0 \<le> d \<and> d < 36 \<and> \<bar>b2\<bar> < 60466176 \<and> \<bar>a2\<bar> = 36 * \<bar>b2\<bar> + d)"
  proof cases
    case 1
    then have "parseBase36 (toBase36 \<bar>a2\<bar> 5) = parseBase36 (toBase36 \<bar>b2\<bar> 5)"
      by simp
    then have "\<bar>a2\<bar> = \<bar>b2\<bar>"
      by (simp add: parseBase36_toBase36)
    then show ?thesis by simp
  next
    case 2
    from 2(1) have "parseBase36 (toBase36 \<bar>b2\<bar> 5) = parseBase36 (toBase36 \<bar>a2\<bar> 5 @ [c])"
      by simp
    then have "nat \<bar>b2\<bar> = 36 * nat \<bar>a2\<bar> + digitValue c"
      by (simp only: parseBase36_snoc parseBase36_toBase36)
    then have rel: "\<bar>b2\<bar> = 36 * \<bar>a2\<bar> + int (digitValue c)"
      by linarith
    have "parseBase36 (toBase36 \<bar>a2\<bar> 5) < 36 ^ length (toBase36 \<bar>a2\<bar> 5)"
      by (rule parseBase36_bound)
    with 2(2) have "nat \<bar>a2\<bar> < 36 ^ 5"
      by (simp only: parseBase36_toBase36)
    then have "\<bar>a2\<bar> < 60466176" by simp
    moreover have "int (digitValue c) < 36"
      using digitValue_less [of c] by simp
    ultimately show ?thesis using rel by auto
  next
    case 3
    from 3(1) have "parseBase36 (toBase36 \<bar>a2\<bar> 5) = parseBase36 (toBase36 \<bar>b2\<bar> 5 @ [c])"
      by simp
    then have "nat \<bar>a2\<bar> = 36 * nat \<bar>b2\<bar> + digitValue c"
      by (simp only: parseBase36_snoc parseBase36_toBase36)
    then have rel: "\<bar>a2\<bar> = 36 * \<bar>b2\<bar> + int (digitValue c)"
      by linarith
    have "parseBase36 (toBase36 \<bar>b2\<bar> 5) < 36 ^ length (toBase36 \<bar>b2\<bar> 5)"
      by (rule parseBase36_bound)
    with 3(2) have "nat \<bar>b2\<bar> < 36 ^ 5"
      by (simp only: parseBase36_toBase36)
    then have "\<bar>b2\<bar> < 60466176" by simp
    moreover have "int (digitValue c) < 36"
      using digitValue_less [of c] by simp
    ultimately show ?thesis using rel by auto
  qed
  with first show ?thesis unfolding a2_def b2_def by simp
qed

lemma uuidOfHash_neq_odd:
  assumes ra: "- 2147483648 \<le> a \<and> a < 2147483648"
    and rb: "- 2147483648 \<le> b \<and> b < 2147483648"
    and odd: "(a - b) mod 2 = 1"
  shows "uuidOfHash a \<noteq> uuidOfHash b"
proof
  assume "uuidOfHash a = uuidOfHash b"
  with ra rb have "\<bar>a\<bar> = \<bar>b\<bar>"
    using uuidOfHash_parts by blast
  then have "a = b \<or> a = - b" by linarith
  with odd show False by presburger
qed

lemma uuidOfHash_neq_diff8:
  assumes ra: "- 2147483648 \<le> a \<and> a < 2147483648"
    and rb: "- 2147483648 \<le> b \<and> b < 2147483648"
    and diff: "(a - b) mod 16 = 8"
  shows "uuidOfHash a \<noteq> uuidOfHash b"
proof
  assume eq: "uuidOfHash a = uuidOfHash b"
  define a2 where "a2 = hashLoop a (charCodes ''salt1'')"
  define b2 where "b2 = hashLoop b (charCodes ''salt1'')"
  note parts = uuidOfHash_parts [OF ra rb eq, folded a2_def b2_def]
  from parts have "a = b \<or> b = - a" by linarith
  moreover from diff have "a \<noteq> b" by auto
  ultimately have b: "b = - a" by simp
  have r2: "- 2147483648 \<le> a2 \<and> a2 < 2147483648" "- 2147483648 \<le> b2 \<and> b2 < 2147483648"
    unfolding a2_def b2_def using ra rb by (simp_all only: hashLoop_range)
  have "(a2 + b2) mod 4294967296 = 218404150"
    unfolding a2_def b2_def b by (rule hashLoop_salt1_sum)
  moreover from r2 have "- 4294967296 \<le> a2 + b2" "a2 + b2 < 4294967296" by linarith+
  ultimately have sum: "a2 + b2 = 218404150 \<or> a2 + b2 = - 4076563146"
    by (rule sum_cases)
  have d2: "(a2 - b2) mod 16 = 8"
    unfolding a2_def b2_def using diff by (rule hashLoop_diff8)
  from parts consider "\<bar>a2\<bar> = \<bar>b2\<bar>"
    | d where "0 \<le> d" "d < 36" "\<bar>a2\<bar> < 60466176" "\<bar>b2\<bar> = 36 * \<bar>a2\<bar> + d"
    | d where "0 \<le> d" "d < 36" "\<bar>b2\<bar> < 60466176" "\<bar>a2\<bar> = 36 * \<bar>b2\<bar> + d"
    by blast
  then show False
  proof cases
    case 1
    then have "a2 = b2 \<or> a2 + b2 = 0" by linarith
    with sum d2 show False by auto
  next
    case 2
    from 2(4) 2(1) 2(2) 2(3) sum show False
      by (rule no_shifted_collision) (simp add: d2)
  next
    case 3
    from sum have "b2 + a2 = 218404150 \<or> b2 + a2 = - 4076563146"
      by (simp add: add.commute)
    with 3(4) 3(1) 3(2) 3(3) show False
      by (rule no_shifted_collision) (simp add: d2)
  qed
qed

lemma generate_uuidOfHash:
  "generateDeterministicUUID p ns = uuidOfHash (hashLoop (hashLoop 0 (ns @ charCodes '':'')) p)"
  unfolding generateDeterministicUUID_def uuidOfHash_def hashString_def Let_def
  by (simp only: hashLoop_append append_assoc)

lemma hash_folder: "hashLoop 0 (charCodes ''folder'' @ charCodes '':'') = - 683249268"
  by (simp add: charCodes_def hashStep_def ToInt32_def)

lemma hash_journal: "hashLoop 0 (charCodes ''journal'' @ charCodes '':'') = - 1053739037"
  by (simp add: charCodes_def hashStep_def ToInt32_def)

lemma hash_page: "hashLoop 0 (charCodes ''page'' @ charCodes '':'') = 106426251"
  by (simp add: charCodes_def hashStep_def ToInt32_def)

lemma uuid_folder_journal:
  "generateDeterministicUUID p (charCodes ''folder'') \<noteq> generateDeterministicUUID p (charCodes ''journal'')"
  unfolding generate_uuidOfHash hash_folder hash_journal
  by (rule uuidOfHash_neq_odd) (simp_all add: hashLoop_range hashLoop_diff_odd)

lemma uuid_folder_page:
  "generateDeterministicUUID p (charCodes ''folder'') \<noteq> generateDeterministicUUID p (charCodes ''page'')"
  unfolding generate_uuidOfHash hash_folder hash_page
  by (rule uuidOfHash_neq_odd) (simp_all add: hashLoop_range hashLoop_diff_odd)

lemma uuid_journal_page:
  "generateDeterministicUUID p (charCodes ''journal'') \<noteq> generateDeterministicUUID p (charCodes ''page'')"
  unfolding generate_uuidOfHash hash_journal hash_page
  by (rule uuidOfHash_neq_diff8) (simp_all add: hashLoop_range hashLoop_diff8)

text \<open>
  C7. For every path and every two distinct namespaces among \<open>folder\<close>, \<open>journal\<close> and
  \<open>page\<close>, the two identities differ. The hash values of \<open>folder:\<close> and of either other
  prefix differ in parity, and a common suffix keeps that, so the first six characters
  differ. The hash values of \<open>journal:\<close> and \<open>page:\<close> differ by 8 modulo 16; if their
  absolute values agree, the second parts (from the \<open>salt1\<close> hashes) cannot agree, neither
  at equal length nor shifted by one character.
\<close>

theorem namespaces_never_collide:
  assumes "ns1 \<in> {charCodes ''folder'', charCodes ''journal'', charCodes ''page''}"
    and "ns2 \<in> {charCodes ''folder'', charCodes ''journal'', charCodes ''page''}"
    and "ns1 \<noteq> ns2"
  shows "generateDeterministicUUID p ns1 \<noteq> generateDeterministicUUID p ns2"
proof -
  note fj = uuid_folder_journal [of p] and fp = uuid_folder_page [of p]
    and jp = uuid_journal_page [of p]
  from assms consider
      "ns1 = charCodes ''folder''" "ns2 = charCodes ''journal''"
    | "ns1 = charCodes ''journal''" "ns2 = charCodes ''folder''"
    | "ns1 = charCodes ''folder''" "ns2 = charCodes ''page''"
    | "ns1 = charCodes ''page''" "ns2 = charCodes ''folder''"
    | "ns1 = charCodes ''journal''" "ns2 = charCodes ''page''"
    | "ns1 = charCodes ''page''" "ns2 = charCodes ''journal''"
    by blast
  then show ?thesis
  proof cases
    case 1 with fj show ?thesis by simp
  next
    case 2 with fj show ?thesis by metis
  next
    case 3 with fp show ?thesis by simp
  next
    case 4 with fp show ?thesis by metis
  next
    case 5 with jp show ?thesis by simp
  next
    case 6 with jp show ?thesis by metis
  qed
qed

theorem namespaces_never_collide_witness:
  "generateDeterministicUUID (charCodes ''notes/my-note.md'') (charCodes ''journal'')
     \<noteq> generateDeterministicUUID (charCodes ''notes/my-note.md'') (charCodes ''page'')"
  by (rule namespaces_never_collide) (simp_all add: charCodes_def)

section \<open>Frontmatter and visibility\<close>

lemma jsString_public:
  "toLowerCase (jsString v) = ''public''
     \<longleftrightarrow> (\<exists>s. v = Some (FMString s) \<and> toLowerCase s = ''public'')"
proof (cases v)
  case None
  then show ?thesis by (simp add: jsString_def toLowerCase_def)
next
  case (Some x)
  then show ?thesis by (cases x) (auto simp: jsString_def toLowerCase_def)
qed

lemma example_match:
  "matchFrontmatter (''---'' @ [LF] @ ''public: true'' @ [LF] @ ''---'' @ [LF] @ ''Body'')
     = Some (''public: true'', ''Body'')"
  by code_simp

lemma example_yaml: "parseYaml ''public: true'' ''public'' = Some (FMBool True)"
  by code_simp

lemma example_body:
  "headingTweak ''Body'' = ''Body''" "stripCallouts AtLineStart ''Body'' = ''Body''"
  by code_simp+

text \<open>
  C3. For every raw text and either setting of the callout toggle, the parsed file is public
  exactly when its frontmatter maps \<open>public\<close> to the boolean true or maps \<open>visibility\<close> to a
  string that is \<open>public\<close> up to case. Without a frontmatter block the frontmatter is empty
  and the file is private. The text \<^verbatim>\<open>"---\npublic: true\n---\nBody"\<close> is public and
  its body is \<^verbatim>\<open>"Body"\<close>.
\<close>

theorem frontmatter_public_rule:
  "(pf_isPublic (parseFrontmatterAndBody raw strip) \<longleftrightarrow>
      pf_frontmatter (parseFrontmatterAndBody raw strip) ''public'' = Some (FMBool True)
      \<or> (\<exists>s. pf_frontmatter (parseFrontmatterAndBody raw strip) ''visibility'' = Some (FMString s)
               \<and> toLowerCase s = ''public''))
   \<and> (matchFrontmatter raw = None \<longrightarrow>
        \<not> pf_isPublic (parseFrontmatterAndBody raw strip)
        \<and> pf_frontmatter (parseFrontmatterAndBody raw strip) = Map.empty)
   \<and> pf_isPublic (parseFrontmatterAndBody
         (''---'' @ [LF] @ ''public: true'' @ [LF] @ ''---'' @ [LF] @ ''Body'') strip)
   \<and> pf_body (parseFrontmatterAndBody
         (''---'' @ [LF] @ ''public: true'' @ [LF] @ ''---'' @ [LF] @ ''Body'') strip) = ''Body''"
proof (intro conjI)
  show "pf_isPublic (parseFrontmatterAndBody raw strip) \<longleftrightarrow>
      pf_frontmatter (parseFrontmatterAndBody raw strip) ''public'' = Some (FMBool True)
      \<or> (\<exists>s. pf_frontmatter (parseFrontmatterAndBody raw strip) ''visibility'' = Some (FMString s)
               \<and> toLowerCase s = ''public'')"
    by (cases "matchFrontmatter raw")
      (auto simp: parseFrontmatterAndBody_def Let_def jsString_public)
  show "matchFrontmatter raw = None \<longrightarrow>
        \<not> pf_isPublic (parseFrontmatterAndBody raw strip)
        \<and> pf_frontmatter (parseFrontmatterAndBody raw strip) = Map.empty"
    by (simp add: parseFrontmatterAndBody_def)
  show "pf_isPublic (parseFrontmatterAndBody
         (''---'' @ [LF] @ ''public: true'' @ [LF] @ ''---'' @ [LF] @ ''Body'') strip)"
    by (simp only: parseFrontmatterAndBody_def Let_def example_match)
      (simp add: example_yaml)
  show "pf_body (parseFrontmatterAndBody
         (''---'' @ [LF] @ ''public: true'' @ [LF] @ ''---'' @ [LF] @ ''Body'') strip) = ''Body''"
    by (simp only: parseFrontmatterAndBody_def Let_def example_match)
      (simp add: example_body)
qed

lemma no_block_example: "matchFrontmatter ''Body only'' = None"
  by code_simp

lemma visibility_example:
  "pf_frontmatter (parseFrontmatterAndBody
      (''---'' @ [CR, LF] @ ''Visibility:  PUBLIC '' @ [CR, LF] @ ''---'' @ [LF] @ ''text'') True)
     ''visibility'' = Some (FMString ''PUBLIC'')"
  by code_simp

theorem frontmatter_public_rule_witness:
  "matchFrontmatter ''Body only'' = None
   \<and> \<not> pf_isPublic (parseFrontmatterAndBody ''Body only'' False)
   \<and> pf_isPublic (parseFrontmatterAndBody
        (''---'' @ [CR, LF] @ ''Visibility:  PUBLIC '' @ [CR, LF] @ ''---'' @ [LF] @ ''text'') True)"
proof -
  have "toLowerCase ''PUBLIC'' = ''public''" by code_simp
  with visibility_example
    frontmatter_public_rule [of "''---'' @ [CR, LF] @ ''Visibility:  PUBLIC '' @ [CR, LF] @ ''---'' @ [LF] @ ''text''" True]
    frontmatter_public_rule [of "''Body only''" False] no_block_example
  show ?thesis by blast
qed

section \<open>The heading tweak\<close>

lemma lineTerminator_not_word:
  "isLineTerminator t \<Longrightarrow> \<not> isWordChar t \<and> \<not> isAlnum t \<and> t \<noteq> CHR ''#''"
  by (auto simp: isLineTerminator_def isWordChar_def isAlnum_def isDigit_def isAsciiLetter_def
      LF_def CR_def)

lemma matchHeading_Cons:
  "matchHeading (c # t) \<longleftrightarrow>
     c = CHR ''#'' \<and> takeWhile isAlnum t \<noteq> [] \<and>
     (dropWhile isAlnum t = [] \<or> \<not> isWordChar (hd (dropWhile isAlnum t)))"
  by (simp add: matchHeading_def del: dropWhile_eq_Nil_conv)

lemma matchHeading_Nil: "\<not> matchHeading []"
  by (simp add: matchHeading_def)

lemma matchHeading_iff:
  "matchHeading l \<longleftrightarrow>
     (\<exists>run rest. l = CHR ''#'' # run @ rest \<and> run \<noteq> [] \<and> (\<forall>c\<in>set run. isAlnum c)
                 \<and> (rest = [] \<or> \<not> isWordChar (hd rest)))"
proof
  assume m: "matchHeading l"
  then obtain t where l: "l = CHR ''#'' # t"
    by (cases l) (auto simp: matchHeading_Nil matchHeading_Cons)
  let ?run = "takeWhile isAlnum t" and ?rest = "dropWhile isAlnum t"
  from m [unfolded l matchHeading_Cons]
  have "?run \<noteq> []" "?rest = [] \<or> \<not> isWordChar (hd ?rest)"
    by blast+
  moreover have "l = CHR ''#'' # ?run @ ?rest" using l by simp
  moreover have "\<forall>c\<in>set ?run. isAlnum c" by (auto dest: set_takeWhileD)
  ultimately show "\<exists>run rest. l = CHR ''#'' # run @ rest \<and> run \<noteq> [] \<and> (\<forall>c\<in>set run. isAlnum c)
                 \<and> (rest = [] \<or> \<not> isWordChar (hd rest))"
    by blast
next
  assume "\<exists>run rest. l = CHR ''#'' # run @ rest \<and> run \<noteq> [] \<and> (\<forall>c\<in>set run. isAlnum c)
                 \<and> (rest = [] \<or> \<not> isWordChar (hd rest))"
  then obtain run rest where l: "l = CHR ''#'' # run @ rest" and run: "run \<noteq> []"
    "\<forall>c\<in>set run. isAlnum c" and rest: "rest = [] \<or> \<not> isWordChar (hd rest)"
    by blast
  define t where "t = run @ rest"
  from rest have stop: "rest = [] \<or> \<not> isAlnum (hd rest)"
    by (auto simp: isWordChar_def)
  have tw: "takeWhile isAlnum t = run"
    unfolding t_def using run(2) stop by (cases rest) (simp_all add: takeWhile_append2)
  have dw: "dropWhile isAlnum t = rest"
    unfolding t_def using run(2) stop by (cases rest) (simp_all add: dropWhile_append2)
  have "matchHeading (CHR ''#'' # t)"
    unfolding matchHeading_Cons tw dw using run(1) rest by simp
  then show "matchHeading l" using l t_def by simp
qed

lemma matchHeading_line:
  assumes "\<forall>c\<in>set l. \<not> isLineTerminator c" "isLineTerminator t"
  shows "matchHeading (l @ t # s) = matchHeading l"
proof (cases l)
  case Nil
  with lineTerminator_not_word [OF assms(2)] show ?thesis
    by (simp add: matchHeading_Nil matchHeading_Cons)
next
  case (Cons c l')
  note nw = lineTerminator_not_word [OF assms(2)]
  show ?thesis
  proof (cases "\<forall>x\<in>set l'. isAlnum x")
    case True
    then have a: "takeWhile isAlnum (l' @ t # s) = l'" "dropWhile isAlnum (l' @ t # s) = t # s"
      using nw by simp_all
    from True have b: "takeWhile isAlnum l' = l'" "dropWhile isAlnum l' = []"
      by simp_all
    show ?thesis
      unfolding Cons append_Cons matchHeading_Cons a b using nw by simp
  next
    case False
    then have a: "takeWhile isAlnum (l' @ t # s) = takeWhile isAlnum l'"
      "dropWhile isAlnum (l' @ t # s) = dropWhile isAlnum l' @ t # s"
      by (auto simp: takeWhile_append1 dropWhile_append1)
    from False obtain d ds where b: "dropWhile isAlnum l' = d # ds"
      by (cases "dropWhile isAlnum l'") auto
    show ?thesis
      unfolding Cons append_Cons matchHeading_Cons a b by simp
  qed
qed

lemma headingTweakFrom_inside:
  "\<forall>c\<in>set l. \<not> isLineTerminator c \<Longrightarrow>
   headingTweakFrom False (l @ s) = l @ headingTweakFrom False s"
  by (induction l) simp_all

lemma headingTweakFrom_terminator:
  "isLineTerminator t \<Longrightarrow> headingTweakFrom b (t # s) = t # headingTweakFrom True s"
  using lineTerminator_not_word [of t] by (simp add: matchHeading_Cons)

lemma headingTweak_one_line:
  assumes "\<forall>c\<in>set l. \<not> isLineTerminator c"
  shows "headingTweakFrom True l = (if matchHeading l then CHR '' '' # l else l)"
proof (cases l)
  case Nil
  then show ?thesis by (simp add: matchHeading_Nil)
next
  case (Cons c l')
  with assms have "\<not> isLineTerminator c" and l': "\<forall>x\<in>set l'. \<not> isLineTerminator x"
    by simp_all
  moreover from headingTweakFrom_inside [OF l', of "[]"] have "headingTweakFrom False l' = l'"
    by simp
  ultimately show ?thesis using Cons by simp
qed

lemma headingTweak_first_line:
  assumes "\<forall>c\<in>set l. \<not> isLineTerminator c" and t: "isLineTerminator t"
  shows "headingTweakFrom True (l @ t # s)
           = (if matchHeading l then CHR '' '' # l else l) @ t # headingTweakFrom True s"
proof (cases l)
  case Nil
  then show ?thesis by (simp only: append_Nil headingTweakFrom_terminator [OF t] matchHeading_Nil if_False)
next
  case (Cons c l')
  with assms have c: "\<not> isLineTerminator c" and l': "\<forall>x\<in>set l'. \<not> isLineTerminator x"
    by simp_all
  have inner: "headingTweakFrom False (l' @ t # s) = l' @ t # headingTweakFrom True s"
    by (simp only: headingTweakFrom_inside [OF l'] headingTweakFrom_terminator [OF t])
  have m: "matchHeading (c # l' @ t # s) = matchHeading (c # l')"
    using matchHeading_line [OF assms, of s] Cons by simp
  show ?thesis
    unfolding Cons append_Cons using c m inner by simp
qed

text \<open>
  C9, as the code has it. On a line (a text without line terminators, alone or followed by
  a line terminator and more text) a space is put in front exactly when the line starts
  with one \<open>#\<close> followed by one or more ASCII letters or digits, and that run ends the
  line or is followed by a character that is no word character (not \<open>_\<close>). The line itself
  is kept, and the text after the line terminator is treated the same way.
\<close>

theorem heading_tweak_single_hash:
  assumes "\<forall>c\<in>set l. \<not> isLineTerminator c"
  shows "headingTweak l =
           (if (\<exists>run rest. l = CHR ''#'' # run @ rest \<and> run \<noteq> [] \<and> (\<forall>c\<in>set run. isAlnum c)
                  \<and> (rest = [] \<or> \<not> isWordChar (hd rest)))
            then CHR '' '' # l else l)
         \<and> (\<forall>t s. isLineTerminator t \<longrightarrow>
              headingTweak (l @ t # s) =
                (if (\<exists>run rest. l = CHR ''#'' # run @ rest \<and> run \<noteq> [] \<and> (\<forall>c\<in>set run. isAlnum c)
                      \<and> (rest = [] \<or> \<not> isWordChar (hd rest)))
                 then CHR '' '' # l else l) @ t # headingTweak s)"
  unfolding headingTweak_def matchHeading_iff [symmetric]
  using headingTweak_one_line [OF assms] headingTweak_first_line [OF assms]
  by blast

theorem heading_tweak_single_hash_witness:
  "headingTweak ''#tag here'' = '' #tag here''
   \<and> headingTweak (''#a_b'' @ [LF] @ ''#1st'') = ''#a_b'' @ [LF] @ '' #1st''"
proof -
  have nl: "\<forall>c\<in>set ''#tag here''. \<not> isLineTerminator c" "\<forall>c\<in>set ''#a_b''. \<not> isLineTerminator c"
    "\<forall>c\<in>set ''#1st''. \<not> isLineTerminator c"
    by (simp_all add: isLineTerminator_def LF_def CR_def)
  have lf: "isLineTerminator LF" by (simp add: isLineTerminator_def)
  have m: "matchHeading ''#tag here''" "\<not> matchHeading ''#a_b''" "matchHeading ''#1st''"
    by code_simp+
  from heading_tweak_single_hash [OF nl(1)] heading_tweak_single_hash [OF nl(2)]
    heading_tweak_single_hash [OF nl(3)] lf m
  show ?thesis
    unfolding matchHeading_iff [symmetric] by simp
qed

text \<open>
  C9 as stated asks for the space in front of a run of \<open>#\<close>. A line starting with two of
  them is left as it is.
\<close>

theorem heading_run_counterexample:
  "headingTweak ''##Title'' = ''##Title'' \<and> headingTweak ''##Title'' \<noteq> '' ##Title''"
  by code_simp

section \<open>References without a link stay as they are\<close>

lemma rewriteMatch_no_link:
  assumes "\<forall>alias. fi_getLink f (Some alias) = None"
  shows "snd (rewriteMatch f page m st) = st"
  using assms by (simp add: rewriteMatch_def split: option.split)

lemma rewriteMatches_no_link:
  assumes "\<forall>alias. fi_getLink f (Some alias) = None"
  shows "snd (rewriteMatches f page ms st) = st"
proof (induction ms)
  case Nil
  show ?case by simp
next
  case (Cons m ms)
  from rewriteMatch_no_link [OF assms, of page m st]
  obtain c where "rewriteMatch f page m st = (c, st)"
    by (cases "rewriteMatch f page m st") simp
  with Cons show ?case by (cases c) simp_all
qed

lemma rewritePatterns_no_link:
  assumes "\<forall>alias. fi_getLink f (Some alias) = None"
  shows "snd (rewritePatterns f page ps st) = st"
proof (induction ps)
  case Nil
  show ?case by simp
next
  case (Cons p ps)
  from rewriteMatches_no_link [OF assms, of page "p (st page)" st]
  obtain c where "rewriteMatches f page (p (st page)) st = (c, st)"
    by (cases "rewriteMatches f page (p (st page)) st") simp
  with Cons show ?case by (cases c) simp_all
qed

text \<open>
  C4. When \<^verbatim>\<open>getLink\<close> of a file gives \<^verbatim>\<open>null\<close> for every alias (the file was never
  imported), \<^verbatim>\<open>updateLinks\<close> for that file leaves the body of every page as it was,
  whatever its patterns match, and also when the pass stops at an error.
\<close>

theorem unresolved_links_untouched:
  assumes "\<forall>alias. fi_getLink fileInfo (Some alias) = None"
  shows "snd (updateLinks fileInfo allPages st) = st"
  unfolding updateLinks_def
proof (induction allPages)
  case Nil
  show ?case by simp
next
  case (Cons page pages)
  from rewritePatterns_no_link [OF assms, of page "fi_linkRegex fileInfo" st]
  obtain c where "rewritePatterns fileInfo page (fi_linkRegex fileInfo) st = (c, st)"
    by (cases "rewritePatterns fileInfo page (fi_linkRegex fileInfo) st") simp
  with Cons show ?case by (cases c) simp_all
qed

theorem unresolved_links_untouched_witness:
  "snd (updateLinks
         \<lparr>fi_isOther = False, fi_fileNameNoExt = ''Ghost'', fi_journalPage = None,
          fi_linkRegex = [\<lambda>s. [\<lparr>rm_text = ''[[Ghost]]'', rm_group2 = None\<rparr>]],
          fi_getLink = (\<lambda>alias. None)\<rparr>
         [0] (\<lambda>page. ''see [[Ghost]]''))
     = (\<lambda>page. ''see [[Ghost]]'')"
  by (rule unresolved_links_untouched) simp

section \<open>The dimension directive of an asset reference\<close>

lemma isDigit_not_special:
  "isDigit c \<Longrightarrow> c \<noteq> CHR ''|'' \<and> c \<noteq> CHR '']'' \<and> c \<noteq> CHR ''x'' \<and> c \<noteq> CHR ''X''"
  unfolding isDigit_def by auto

lemma toLowerCaseChar_digit: "isDigit c \<Longrightarrow> toLowerCaseChar c = c"
  unfolding isDigit_def toLowerCaseChar_def Let_def by auto

lemma toLowerCase_digits: "\<forall>c\<in>set w. isDigit c \<Longrightarrow> toLowerCase w = w"
  unfolding toLowerCase_def by (simp add: toLowerCaseChar_digit map_idI)

lemma takeWhile_digits:
  "\<forall>c\<in>set w. isDigit c \<Longrightarrow> \<not> isDigit d \<Longrightarrow> takeWhile isDigit (w @ d # r) = w"
  by (simp add: takeWhile_append2)

lemma dropWhile_digits:
  "\<forall>c\<in>set w. isDigit c \<Longrightarrow> \<not> isDigit d \<Longrightarrow> dropWhile isDigit (w @ d # r) = d # r"
  by (simp add: dropWhile_append2)

lemma not_digit: "\<not> isDigit CHR '']''" "\<not> isDigit CHR ''x''" "\<not> isDigit CHR ''X''"
  unfolding isDigit_def by simp_all

lemma matchResizeAt_width:
  assumes "w \<noteq> []" "\<forall>c\<in>set w. isDigit c"
  shows "matchResizeAt (CHR ''|'' # w @ CHR '']'' # post) = Some (CHR ''|'' # w @ '']'')"
  using assms unfolding matchResizeAt_def
  by (simp add: takeWhile_digits dropWhile_digits not_digit Let_def)

lemma matchResizeAt_both:
  assumes "w \<noteq> []" "\<forall>c\<in>set w. isDigit c" "h \<noteq> []" "\<forall>c\<in>set h. isDigit c"
    and "x = CHR ''x'' \<or> x = CHR ''X''"
  shows "matchResizeAt (CHR ''|'' # w @ x # h @ CHR '']'' # post) = Some (CHR ''|'' # w @ x # h @ '']'')"
proof -
  have nd: "\<not> isDigit x" using assms(5) not_digit by auto
  have x: "x \<noteq> CHR '']''" using assms(5) by auto
  show ?thesis
    using assms x unfolding matchResizeAt_def
    by (simp add: takeWhile_digits dropWhile_digits not_digit nd Let_def)
qed

lemma matchResizeAt_other: "CHR ''|'' \<noteq> c \<Longrightarrow> matchResizeAt (c # t) = None"
  unfolding matchResizeAt_def by (auto simp: Let_def)

lemma toLowerCaseChar_x:
  "toLowerCaseChar CHR ''X'' = CHR ''x''" "toLowerCaseChar CHR ''x'' = CHR ''x''"
  by code_simp+

lemma findResize_skip: "CHR ''|'' \<notin> set pre \<Longrightarrow> findResize (pre @ c # s) = findResize (c # s)"
  by (induction pre) (auto simp: matchResizeAt_other)

lemma splitChar_none: "sep \<notin> set w \<Longrightarrow> splitChar sep w = [w]"
  by (induction w) auto

lemma splitChar_first: "sep \<notin> set w \<Longrightarrow> splitChar sep (w @ sep # r) = w # splitChar sep r"
  by (induction w) auto

lemma applyResize_width:
  assumes "CHR ''|'' \<notin> set pre" "w \<noteq> []" "\<forall>c\<in>set w. isDigit c"
  shows "applyResize (pre @ ''|'' @ w @ '']'' @ post) (l @ '')'') = l @ '' ='' @ w @ ''x*)''"
proof -
  have f: "findResize (pre @ ''|'' @ w @ '']'' @ post) = Some (CHR ''|'' # w @ '']'')"
    using assms by (simp add: findResize_skip matchResizeAt_width)
  have n: "\<forall>c\<in>set w. c \<noteq> CHR ''|'' \<and> c \<noteq> CHR '']''" "CHR ''x'' \<notin> set w"
    using assms(3) isDigit_not_special by blast+
  then have g: "filter (\<lambda>c. c \<noteq> CHR ''|'' \<and> c \<noteq> CHR '']'') (CHR ''|'' # w @ '']'') = w"
    by (simp add: filter_id_conv)
  show ?thesis
    unfolding applyResize_def f option.case Let_def g
    by (simp add: toLowerCase_digits assms splitChar_none n)
qed

lemma applyResize_both:
  assumes "CHR ''|'' \<notin> set pre" "w \<noteq> []" "\<forall>c\<in>set w. isDigit c" "h \<noteq> []" "\<forall>c\<in>set h. isDigit c"
    and "x = CHR ''x'' \<or> x = CHR ''X''"
  shows "applyResize (pre @ ''|'' @ w @ [x] @ h @ '']'' @ post) (l @ '')'')
           = l @ '' ='' @ w @ ''x'' @ h @ '')''"
proof -
  have f: "findResize (pre @ ''|'' @ w @ [x] @ h @ '']'' @ post) = Some (CHR ''|'' # w @ x # h @ '']'')"
    using assms by (simp add: findResize_skip matchResizeAt_both)
  have n: "\<forall>c\<in>set w. c \<noteq> CHR ''|'' \<and> c \<noteq> CHR '']''" "CHR ''x'' \<notin> set w"
      "\<forall>c\<in>set h. c \<noteq> CHR ''|'' \<and> c \<noteq> CHR '']''" "CHR ''x'' \<notin> set h"
    using assms(3,5) isDigit_not_special by blast+
  then have g: "filter (\<lambda>c. c \<noteq> CHR ''|'' \<and> c \<noteq> CHR '']'') (CHR ''|'' # w @ x # h @ '']'') = w @ x # h"
    using assms(6) by (auto simp: filter_id_conv)
  have lx: "toLowerCaseChar x = CHR ''x''"
    using assms(6) toLowerCaseChar_x by auto
  have low: "toLowerCase (w @ x # h) = w @ CHR ''x'' # h"
    using toLowerCase_digits [of w] toLowerCase_digits [of h] assms(3,5) lx
    by (simp add: toLowerCase_def)
  show ?thesis
    unfolding applyResize_def f option.case Let_def g low
    by (simp add: splitChar_first splitChar_none n)
qed

text \<open>
  C8. For an asset (\<^verbatim>\<open>OtherFileInfo\<close>) whose link ends in a closing parenthesis, as a
  markdown image link does, and a reference whose first vertical bar begins a size suffix:
  a reference with the suffix \<^verbatim>\<open>|WxH]\<close> (digits \<open>W\<close> and \<open>H\<close>, the \<open>x\<close> of either case)
  is replaced by the link with \<^verbatim>\<open> =WxH\<close> put before that parenthesis, and one with the
  suffix \<^verbatim>\<open>|W]\<close> by the link with \<^verbatim>\<open> =Wx*\<close>. So \<^verbatim>\<open>![[img.png|300x200]]\<close> gets
  \<^verbatim>\<open> =300x200\<close> and \<^verbatim>\<open>![[img.png|300]]\<close> gets \<^verbatim>\<open> =300x*\<close>.
\<close>

theorem asset_size_directive:
  assumes "fi_isOther fileInfo" and "aliasOf g = Some alias"
    and "fi_getLink fileInfo (Some alias) = Some (l @ '')'')"
    and "CHR ''|'' \<notin> set pre"
    and "w \<noteq> []" and "\<forall>c\<in>set w. isDigit c" and "h \<noteq> []" and "\<forall>c\<in>set h. isDigit c"
    and "x = CHR ''x'' \<or> x = CHR ''X''"
  shows "rewriteMatch fileInfo page \<lparr>rm_text = pre @ ''|'' @ w @ [x] @ h @ '']'' @ post, rm_group2 = g\<rparr> st
           = (Completed, st(page := jsReplace (st page) (pre @ ''|'' @ w @ [x] @ h @ '']'' @ post)
                                       (l @ '' ='' @ w @ ''x'' @ h @ '')'')))
       \<and> rewriteMatch fileInfo page \<lparr>rm_text = pre @ ''|'' @ w @ '']'' @ post, rm_group2 = g\<rparr> st
           = (Completed, st(page := jsReplace (st page) (pre @ ''|'' @ w @ '']'' @ post)
                                       (l @ '' ='' @ w @ ''x*)'')))"
  using assms(1-3) applyResize_both [OF assms(4-9)] applyResize_width [OF assms(4-6)]
  by (simp add: rewriteMatch_def)

lemma example_replace:
  "jsReplace ''See ![[img.png|300x200]] here'' ''![[img.png|300x200]]''
       ''![img.png](assets/img.png =300x200)''
     = ''See ![img.png](assets/img.png =300x200) here''"
  "jsReplace ''See ![[img.png|300]] here'' ''![[img.png|300]]''
       ''![img.png](assets/img.png =300x*)''
     = ''See ![img.png](assets/img.png =300x*) here''"
  by code_simp+

lemma alias_absent: "aliasOf None = Some []"
  by code_simp

theorem asset_size_directive_witness:
  "rewriteMatch imageFile 0 \<lparr>rm_text = ''![[img.png|300x200]]'', rm_group2 = None\<rparr>
      (\<lambda>page. ''See ![[img.png|300x200]] here'')
     = (Completed, (\<lambda>page. ''See ![[img.png|300x200]] here'')
                     (0 := ''See ![img.png](assets/img.png =300x200) here''))
   \<and> rewriteMatch imageFile 0 \<lparr>rm_text = ''![[img.png|300]]'', rm_group2 = None\<rparr>
      (\<lambda>page. ''See ![[img.png|300]] here'')
     = (Completed, (\<lambda>page. ''See ![[img.png|300]] here'')
                     (0 := ''See ![img.png](assets/img.png =300x*) here''))"
proof -
  have d: "\<forall>c\<in>set ''300''. isDigit c" "\<forall>c\<in>set ''200''. isDigit c"
    by (simp_all add: isDigit_def)
  have f: "fi_isOther imageFile"
      "fi_getLink imageFile (Some []) = Some (''![img.png](assets/img.png'' @ '')'')"
    by (simp_all add: imageFile_def)
  have p: "CHR ''|'' \<notin> set ''![[img.png''" by simp
  from asset_size_directive [of imageFile None "[]" "''![img.png](assets/img.png''"
      "''![[img.png''" "''300''" "''200''" "CHR ''x''" 0 "'']''"
      "\<lambda>page. ''See ![[img.png|300x200]] here''", OF f(1) alias_absent f(2) p _ d(1) _ d(2)]
  have a: "rewriteMatch imageFile 0 \<lparr>rm_text = ''![[img.png|300x200]]'', rm_group2 = None\<rparr>
      (\<lambda>page. ''See ![[img.png|300x200]] here'')
     = (Completed, (\<lambda>page. ''See ![[img.png|300x200]] here'')
                     (0 := ''See ![img.png](assets/img.png =300x200) here''))"
    by (simp add: example_replace)
  from asset_size_directive [of imageFile None "[]" "''![img.png](assets/img.png''"
      "''![[img.png''" "''300''" "''200''" "CHR ''x''" 0 "'']''"
      "\<lambda>page. ''See ![[img.png|300]] here''", OF f(1) alias_absent f(2) p _ d(1) _ d(2)]
  have b: "rewriteMatch imageFile 0 \<lparr>rm_text = ''![[img.png|300]]'', rm_group2 = None\<rparr>
      (\<lambda>page. ''See ![[img.png|300]] here'')
     = (Completed, (\<lambda>page. ''See ![[img.png|300]] here'')
                     (0 := ''See ![img.png](assets/img.png =300x*) here''))"
    by (simp add: example_replace)
  from a b show ?thesis by (rule conjI)
qed

section \<open>Backlinks\<close>

lemma mset_insertSorted: "mset (insertSorted cmp x ys) = add_mset x (mset ys)"
  by (induction ys) simp_all

lemma mset_jsSort: "mset (jsSort cmp xs) = mset xs"
  unfolding jsSort_def by (induction xs) (simp_all add: mset_insertSorted)

lemma set_insertSorted: "set (insertSorted cmp x ys) = insert x (set ys)"
  by (induction ys) auto

lemma sorted_insertSorted:
  assumes total: "\<forall>a b. cmp a b \<le> 0 \<or> cmp b a \<le> 0"
    and trans: "\<forall>a b c. cmp a b \<le> 0 \<longrightarrow> cmp b c \<le> 0 \<longrightarrow> cmp a c \<le> (0::int)"
    and "sorted_wrt (\<lambda>a b. cmp a b \<le> 0) ys"
  shows "sorted_wrt (\<lambda>a b. cmp a b \<le> 0) (insertSorted cmp x ys)"
  using assms(3)
proof (induction ys)
  case Nil
  show ?case by simp
next
  case (Cons y ys)
  show ?case
  proof (cases "cmp x y \<le> 0")
    case True
    with Cons.prems trans have "\<forall>z\<in>set ys. cmp x z \<le> 0"
      by (metis sorted_wrt.simps(2))
    with True Cons.prems show ?thesis by simp
  next
    case False
    with total have "cmp y x \<le> 0" by blast
    with False Cons show ?thesis
      by (auto simp: set_insertSorted)
  qed
qed

lemma sorted_jsSort:
  assumes "\<forall>a b. cmp a b \<le> 0 \<or> cmp b a \<le> 0"
    and "\<forall>a b c. cmp a b \<le> 0 \<longrightarrow> cmp b c \<le> 0 \<longrightarrow> cmp a c \<le> (0::int)"
  shows "sorted_wrt (\<lambda>a b. cmp a b \<le> 0) (jsSort cmp xs)"
  unfolding jsSort_def
  by (induction xs) (simp_all add: sorted_insertSorted [OF assms])

text \<open>One turn for a file whose \<^verbatim>\<open>journalPage\<close> is an entry with a first page, under a
  comparator that is a total preorder: without a file found the store is unchanged;
  otherwise the first page gets \<^verbatim>\<open>\r\n#References\r\n\<close> and one entry \<^verbatim>\<open>- link\<close> per file
  found, joined by \<^verbatim>\<open>\r\n\<close> and ordered by \<^verbatim>\<open>fileNameNoExt\<close>.\<close>

lemma backlinkStep_with_pages:
  assumes fp: "firstPage (fi_journalPage (files ! i)) = Some page"
    and total: "\<forall>a b. localeCompare a b \<le> 0 \<or> localeCompare b a \<le> 0"
    and trans: "\<forall>a b c. localeCompare a b \<le> 0 \<longrightarrow> localeCompare b c \<le> 0
                  \<longrightarrow> localeCompare a c \<le> 0"
  shows "let found = backlinkFiles files i st
         in (found = [] \<longrightarrow> backlinkStep localeCompare files i st = (Completed, st))
          \<and> (found \<noteq> [] \<longrightarrow>
               (\<exists>sorted. mset sorted = mset found
                  \<and> sorted_wrt (\<lambda>a b. localeCompare (fi_fileNameNoExt a) (fi_fileNameNoExt b) \<le> 0) sorted
                  \<and> backlinkStep localeCompare files i st =
                      (Completed,
                       st(page := st page @ [CR, LF] @ ''#References'' @ [CR, LF]
                            @ joinWith [CR, LF] (map backlinkEntry sorted)))))"
proof -
  define cmp :: "fileInfo \<Rightarrow> fileInfo \<Rightarrow> int"
    where "cmp = (\<lambda>a b. localeCompare (fi_fileNameNoExt a) (fi_fileNameNoExt b))"
  define found where "found = backlinkFiles files i st"
  from fp obtain d where jp: "fi_journalPage (files ! i) = Some d"
    by (cases "fi_journalPage (files ! i)") (simp_all add: firstPage_def)
  have t: "\<forall>a b. cmp a b \<le> 0 \<or> cmp b a \<le> 0"
    unfolding cmp_def using total by blast
  have tr: "\<forall>a b c. cmp a b \<le> 0 \<longrightarrow> cmp b c \<le> 0 \<longrightarrow> cmp a c \<le> 0"
    unfolding cmp_def using trans by blast
  have empty: "found = [] \<Longrightarrow> backlinkStep localeCompare files i st = (Completed, st)"
    unfolding found_def by (simp add: backlinkStep_def jp)
  have full: "found \<noteq> [] \<Longrightarrow> backlinkStep localeCompare files i st =
      (Completed, st(page := st page @ [CR, LF] @ ''#References'' @ [CR, LF]
          @ joinWith [CR, LF] (map backlinkEntry (jsSort cmp found))))"
    unfolding found_def cmp_def using fp by (simp add: backlinkStep_def jp Let_def)
  have "mset (jsSort cmp found) = mset found"
    by (rule mset_jsSort)
  moreover have "sorted_wrt (\<lambda>a b. cmp a b \<le> 0) (jsSort cmp found)"
    using t tr by (rule sorted_jsSort)
  ultimately have "found \<noteq> [] \<longrightarrow>
      (\<exists>sorted. mset sorted = mset found \<and> sorted_wrt (\<lambda>a b. cmp a b \<le> 0) sorted
         \<and> backlinkStep localeCompare files i st =
             (Completed, st(page := st page @ [CR, LF] @ ''#References'' @ [CR, LF]
                @ joinWith [CR, LF] (map backlinkEntry sorted))))"
    using full by blast
  with empty show ?thesis
    unfolding Let_def found_def cmp_def by blast
qed

text \<open>With entries in place of pages the pass reads each body as the earlier turns left it.
  The turn of the first note writes the link of the second into the first note's page, so
  the turn of the second note finds the first, though no note links to the second.\<close>

lemma pass_reads_written_references:
  "\<not> linksTo twoBodies entryA entryB"
  "fst (createBacklinks byLength [entryA, entryB] twoBodies) = Completed"
  "snd (createBacklinks byLength [entryA, entryB] twoBodies) 0
     = ''Alpha'' @ [CR, LF] @ ''#References'' @ [CR, LF] @ ''- @Doc[b]''"
  "snd (createBacklinks byLength [entryA, entryB] twoBodies) 1
     = ''see @Doc[a]'' @ [CR, LF] @ ''#References'' @ [CR, LF] @ ''- @Doc[a]''"
  by code_simp+

text \<open>A page has no \<^verbatim>\<open>pages\<close>, so no file is found through it.\<close>

lemma linksTo_page:
  "fi_journalPage otherFileInfo = None \<or> (\<exists>p. fi_journalPage otherFileInfo = Some (PageDocument p))
     \<Longrightarrow> \<not> linksTo st otherFileInfo fileInfo"
  by (auto simp: linksTo_def firstPage_def)

lemma backlinkFiles_pages:
  assumes "\<forall>f\<in>set files. fi_journalPage f = None \<or> (\<exists>p. fi_journalPage f = Some (PageDocument p))"
  shows "backlinkFiles files i st = []"
proof -
  have "\<not> linksTo st (files ! j) (files ! i)" if "j < length files" for j
    using assms that by (intro linksTo_page) simp
  then show ?thesis
    unfolding backlinkFiles_def by (simp add: filter_empty_conv)
qed

lemma backlinkStep_pages:
  assumes "\<forall>f\<in>set files. fi_journalPage f = None \<or> (\<exists>p. fi_journalPage f = Some (PageDocument p))"
  shows "backlinkStep localeCompare files i st = (Completed, st)"
  unfolding backlinkStep_def
  by (simp add: backlinkFiles_pages [OF assms] split: option.split)

lemma backlinkLoop_pages:
  assumes "\<forall>f\<in>set files. fi_journalPage f = None \<or> (\<exists>p. fi_journalPage f = Some (PageDocument p))"
  shows "backlinkLoop localeCompare files turns st = (Completed, st)"
  by (induction turns) (simp_all add: backlinkStep_pages [OF assms])

text \<open>
  C5. The import leaves in \<^verbatim>\<open>journalPage\<close> of every markdown file a page or \<^verbatim>\<open>null\<close>
  (line 296). For such files \<^verbatim>\<open>createBacklinks\<close> runs to its end and leaves every page
  body as it was, whatever the bodies contain: \<^verbatim>\<open>journalPage?.pages?.contents[0]\<close> is
  \<^verbatim>\<open>undefined\<close> for each of them, so no file is ever found and no references section is
  appended, also to the page of a note whose link stands in the body of another note.
\<close>

theorem backlinks_never_appended:
  assumes "\<forall>f\<in>set files. fi_journalPage f = None \<or> (\<exists>p. fi_journalPage f = Some (PageDocument p))"
  shows "createBacklinks localeCompare files st = (Completed, st)"
  unfolding createBacklinks_def by (rule backlinkLoop_pages [OF assms])

lemma body_of_B_links_to_A:
  "fi_getLink noteA None = Some ''@Doc[a]''" "includesStr (twoBodies 1) ''@Doc[a]''"
  by code_simp+

theorem backlinks_never_appended_witness:
  "fi_journalPage noteA = Some (PageDocument 0) \<and> fi_journalPage noteB = Some (PageDocument 1)
   \<and> fi_getLink noteA None = Some ''@Doc[a]'' \<and> includesStr (twoBodies 1) ''@Doc[a]''
   \<and> createBacklinks byLength [noteA, noteB] twoBodies = (Completed, twoBodies)"
  using backlinks_never_appended [of "[noteA, noteB]" byLength twoBodies] body_of_B_links_to_A
  by (simp add: noteA_def noteB_def)
section \<open>createOrGetFolder\<close>

lemma getFolder_found:
  assumes "getFolder name pid st = Returned (Some found)"
  shows "found \<in> set (st_folders st) \<and> fo_name found = name
         \<and> (case pid of Some p \<Rightarrow> fo_parent found = Some p
                       | None \<Rightarrow> fo_parent found = None \<and> fo_type found = ''JournalEntry'')"
proof (cases pid)
  case None
  with assms have "find (\<lambda>f. fo_type f = ''JournalEntry'' \<and> fo_parent f = None \<and> fo_name f = name)
      (st_folders st) = Some found"
    by (simp add: getFolder_def)
  then show ?thesis using None
    by (auto simp: find_Some_iff)
next
  case (Some p)
  with assms obtain parent where parent: "folderById st p = Some parent"
    by (auto simp: getFolder_def split: option.splits)
  then have pid: "fo_id parent = p"
    by (auto simp: folderById_def find_Some_iff)
  let ?matches = "filter (\<lambda>c. fo_name c = name)
      (filter (\<lambda>c. fo_parent c = Some (fo_id parent)) (st_folders st))"
  from assms Some parent have "?matches \<noteq> [] \<and> found = hd ?matches"
    by (simp add: getFolder_def Let_def del: filter_filter split: if_splits)
  then have "found \<in> set ?matches"
    using hd_in_set by blast
  with pid Some show ?thesis by auto
qed

lemma getFolder_none:
  assumes "getFolder name pid st = Returned None"
  shows "\<forall>f\<in>set (st_folders st). \<not> (fo_name f = name
         \<and> (case pid of Some p \<Rightarrow> fo_parent f = Some p
                       | None \<Rightarrow> fo_parent f = None \<and> fo_type f = ''JournalEntry''))"
proof (cases pid)
  case None
  with assms have "find (\<lambda>f. fo_type f = ''JournalEntry'' \<and> fo_parent f = None \<and> fo_name f = name)
      (st_folders st) = None"
    by (simp add: getFolder_def)
  then show ?thesis using None
    by (auto simp: find_None_iff)
next
  case (Some p)
  with assms obtain parent where parent: "folderById st p = Some parent"
    by (auto simp: getFolder_def split: option.splits)
  then have pid: "fo_id parent = p"
    by (auto simp: folderById_def find_Some_iff)
  from assms Some parent have "filter (\<lambda>c. fo_name c = name)
      (filter (\<lambda>c. fo_parent c = Some (fo_id parent)) (st_folders st)) = []"
    by (simp add: getFolder_def Let_def del: filter_filter split: if_splits)
  with pid Some show ?thesis
    by (auto simp: filter_empty_conv)
qed

lemma getFolder_returns:
  assumes "pid = None \<or> (\<exists>p\<in>set (st_folders st). Some (fo_id p) = pid)"
  shows "\<exists>r. getFolder name pid st = Returned r"
proof (cases pid)
  case None
  then show ?thesis by (simp add: getFolder_def)
next
  case (Some p)
  with assms have "folderById st p \<noteq> None"
    by (auto simp: folderById_def find_None_iff)
  with Some show ?thesis
    by (auto simp: getFolder_def Let_def)
qed

lemma createOrGetFolder_cases:
  "createOrGetFolder None pid folderPath st = (Returned None, st)
   \<and> createOrGetFolder (Some []) pid folderPath st = (Returned None, st)
   \<and> (name \<noteq> [] \<and> (pid = None \<or> (\<exists>p\<in>set (st_folders st). Some (fo_id p) = pid)) \<longrightarrow>
       (\<exists>r st'. createOrGetFolder (Some name) pid folderPath st = (Returned (Some r), st')
          \<and> ((r \<in> set (st_folders st) \<and> st' = st \<and> fo_name r = name
                \<and> (case pid of Some p \<Rightarrow> fo_parent r = Some p
                              | None \<Rightarrow> fo_parent r = None \<and> fo_type r = ''JournalEntry''))
              \<or> ((\<forall>f\<in>set (st_folders st). \<not> (fo_name f = name
                     \<and> (case pid of Some p \<Rightarrow> fo_parent f = Some p
                                   | None \<Rightarrow> fo_parent f = None \<and> fo_type f = ''JournalEntry'')))
                  \<and> ((r \<in> set (st_folders st) \<and> st' = st
                       \<and> fo_id r = generateFolderUUID (map charCodes (folderPath @ [name])))
                      \<or> ((\<forall>f\<in>set (st_folders st).
                             fo_id f \<noteq> generateFolderUUID (map charCodes (folderPath @ [name])))
                          \<and> r = \<lparr> fo_id = generateFolderUUID (map charCodes (folderPath @ [name])),
                                   fo_name = name, fo_type = ''JournalEntry'', fo_parent = pid,
                                   fo_flag = True \<rparr>
                          \<and> st' = st\<lparr> st_folders := st_folders st @ [r] \<rparr>))))))"
proof (intro conjI impI)
  show "createOrGetFolder None pid folderPath st = (Returned None, st)"
    by (simp add: createOrGetFolder_def)
  show "createOrGetFolder (Some []) pid folderPath st = (Returned None, st)"
    by (simp add: createOrGetFolder_def)
next
  let ?under = "\<lambda>f. fo_name f = name
         \<and> (case pid of Some p \<Rightarrow> fo_parent f = Some p
                       | None \<Rightarrow> fo_parent f = None \<and> fo_type f = ''JournalEntry'')"
  let ?id = "generateFolderUUID (map charCodes (folderPath @ [name]))"
  assume a: "name \<noteq> [] \<and> (pid = None \<or> (\<exists>p\<in>set (st_folders st). Some (fo_id p) = pid))"
  then obtain g where g: "getFolder name pid st = Returned g"
    using getFolder_returns by blast
  show "\<exists>r st'. createOrGetFolder (Some name) pid folderPath st = (Returned (Some r), st')
          \<and> ((r \<in> set (st_folders st) \<and> st' = st \<and> fo_name r = name
                \<and> (case pid of Some p \<Rightarrow> fo_parent r = Some p
                              | None \<Rightarrow> fo_parent r = None \<and> fo_type r = ''JournalEntry''))
              \<or> ((\<forall>f\<in>set (st_folders st). \<not> ?under f)
                  \<and> ((r \<in> set (st_folders st) \<and> st' = st \<and> fo_id r = ?id)
                      \<or> ((\<forall>f\<in>set (st_folders st). fo_id f \<noteq> ?id)
                          \<and> r = \<lparr> fo_id = ?id, fo_name = name, fo_type = ''JournalEntry'',
                                   fo_parent = pid, fo_flag = True \<rparr>
                          \<and> st' = st\<lparr> st_folders := st_folders st @ [r] \<rparr>))))"
  proof (cases g)
    case (Some found)
    with g a have "createOrGetFolder (Some name) pid folderPath st = (Returned (Some found), st)"
      by (simp add: createOrGetFolder_def)
    with getFolder_found [OF g [unfolded Some]] show ?thesis by blast
  next
    case None
    note none = getFolder_none [OF g [unfolded None]]
    show ?thesis
    proof (cases "folderById st ?id")
      case (Some existing)
      with g None a have "createOrGetFolder (Some name) pid folderPath st = (Returned (Some existing), st)"
        by (simp add: createOrGetFolder_def createFolder_def)
      moreover from Some have "existing \<in> set (st_folders st) \<and> fo_id existing = ?id"
        by (auto simp: folderById_def find_Some_iff)
      ultimately show ?thesis using none by blast
    next
      case nid: None
      let ?new = "\<lparr> fo_id = ?id, fo_name = name, fo_type = ''JournalEntry'',
                     fo_parent = pid, fo_flag = True \<rparr>"
      from nid g None a have "createOrGetFolder (Some name) pid folderPath st
          = (Returned (Some ?new), st\<lparr> st_folders := st_folders st @ [?new] \<rparr>)"
        by (simp add: createOrGetFolder_def createFolder_def Let_def)
      moreover from nid have "\<forall>f\<in>set (st_folders st). fo_id f \<noteq> ?id"
        by (auto simp: folderById_def find_None_iff)
      ultimately show ?thesis using none by blast
    qed
  qed
qed

text \<open>
  C10, as the code has it. Without a name (\<^verbatim>\<open>null\<close> or the empty string) the result is
  \<^verbatim>\<open>null\<close> and the store is untouched, whatever the store holds. For any other name, and
  a parent that is absent or in the store, a folder is returned: a stored folder with that
  name under the parent (at the top level: a journal folder without parent); or, when there
  is none, the stored folder that carries the deterministic identifier of the path
  \<open>folderPath + [folderName]\<close>; or, when there is none either, a new folder with that
  identifier, the name and the parent, appended to the store.
\<close>

theorem createOrGetFolder_result:
  "createOrGetFolder None pid folderPath st = (Returned None, st)
   \<and> createOrGetFolder (Some []) pid folderPath st = (Returned None, st)
   \<and> (name \<noteq> [] \<and> (pid = None \<or> (\<exists>p\<in>set (st_folders st). Some (fo_id p) = pid)) \<longrightarrow>
       (\<exists>r st'. createOrGetFolder (Some name) pid folderPath st = (Returned (Some r), st')
          \<and> ((r \<in> set (st_folders st) \<and> st' = st \<and> fo_name r = name
                \<and> (case pid of Some p \<Rightarrow> fo_parent r = Some p
                              | None \<Rightarrow> fo_parent r = None \<and> fo_type r = ''JournalEntry''))
              \<or> ((\<forall>f\<in>set (st_folders st). \<not> (fo_name f = name
                     \<and> (case pid of Some p \<Rightarrow> fo_parent f = Some p
                                   | None \<Rightarrow> fo_parent f = None \<and> fo_type f = ''JournalEntry'')))
                  \<and> ((r \<in> set (st_folders st) \<and> st' = st
                       \<and> fo_id r = generateFolderUUID (map charCodes (folderPath @ [name])))
                      \<or> ((\<forall>f\<in>set (st_folders st).
                             fo_id f \<noteq> generateFolderUUID (map charCodes (folderPath @ [name])))
                          \<and> r = \<lparr> fo_id = generateFolderUUID (map charCodes (folderPath @ [name])),
                                   fo_name = name, fo_type = ''JournalEntry'', fo_parent = pid,
                                   fo_flag = True \<rparr>
                          \<and> st' = st\<lparr> st_folders := st_folders st @ [r] \<rparr>))))))"
  by (rule createOrGetFolder_cases)

theorem createOrGetFolder_result_witness:
  "createOrGetFolder (Some ''Notes'') None [] emptyStore
     = (Returned (Some \<lparr> fo_id = generateFolderUUID (map charCodes ([] @ [''Notes''])),
                          fo_name = ''Notes'', fo_type = ''JournalEntry'', fo_parent = None,
                          fo_flag = True \<rparr>),
        emptyStore\<lparr> st_folders := st_folders emptyStore @
           [\<lparr> fo_id = generateFolderUUID (map charCodes ([] @ [''Notes''])),
              fo_name = ''Notes'', fo_type = ''JournalEntry'', fo_parent = None,
              fo_flag = True \<rparr>] \<rparr>)"
proof -
  have "st_folders emptyStore = []" by (simp add: emptyStore_def)
  with createOrGetFolder_result [of None "[]" emptyStore "''Notes''"]
  show ?thesis by auto
qed

text \<open>
  C10 as stated lets only a folder of that name or a new folder come back. A folder that
  was renamed after an earlier import still carries the identifier of its path; it is
  returned, and nothing is created.
\<close>

theorem createOrGetFolder_by_identity_counterexample:
  "createOrGetFolder (Some ''Notes'') None [] renamedStore = (Returned (Some renamedFolder), renamedStore)
   \<and> fo_name renamedFolder \<noteq> ''Notes''
   \<and> renamedFolder \<in> set (st_folders renamedStore)"
  by (simp add: createOrGetFolder_def getFolder_def createFolder_def folderById_def
      renamedStore_def renamedFolder_def Let_def)

section \<open>The container of a folder level\<close>

lemma containerStep_iff:
  "containerStep s folder parentFolder currentPath st =
     (if (\<not> combineFiles s folder \<and> folderName folder \<noteq> []
            \<and> (\<exists>f\<in>set (getFilesRecursive folder). isMD f))
         \<or> (combineFiles s folder
             \<and> (\<exists>c\<in>set (childFolders folder). \<exists>f\<in>set (getFilesRecursive c). isMD f))
      then createOrGetFolder (Some (folderName folder)) (map_option fo_id parentFolder) currentPath st
      else (Returned parentFolder, st))"
  unfolding containerStep_def oneJournalPerFile_def
  by (simp add: filter_empty_conv)

text \<open>
  Let (a) be: the files are not combined, the folder has a non-empty name and its subtree
  holds a markdown file; and (b): the files are combined and the subtree of some child
  folder holds a markdown file. For a folder below the root the step keeps the parent
  folder and the store when neither holds, and when one holds, with a parent that is absent
  or in the store, it returns a folder of the store it leaves.
\<close>

lemma container_below_root:
  assumes "folderName folder \<noteq> []"
  shows "(\<not> ((\<not> combineFiles s folder \<and> (\<exists>f\<in>set (getFilesRecursive folder). isMD f))
        \<or> (combineFiles s folder
             \<and> (\<exists>c\<in>set (childFolders folder). \<exists>f\<in>set (getFilesRecursive c). isMD f)))
      \<longrightarrow> containerStep s folder parentFolder currentPath st = (Returned parentFolder, st))
   \<and> (((\<not> combineFiles s folder \<and> (\<exists>f\<in>set (getFilesRecursive folder). isMD f))
        \<or> (combineFiles s folder
             \<and> (\<exists>c\<in>set (childFolders folder). \<exists>f\<in>set (getFilesRecursive c). isMD f)))
       \<and> (parentFolder = None \<or> (\<exists>p\<in>set (st_folders st). Some p = parentFolder))
      \<longrightarrow> (\<exists>f st'. containerStep s folder parentFolder currentPath st = (Returned (Some f), st')
                   \<and> f \<in> set (st_folders st')))"
proof (intro conjI impI)
  assume "\<not> ((\<not> combineFiles s folder \<and> (\<exists>f\<in>set (getFilesRecursive folder). isMD f))
        \<or> (combineFiles s folder
             \<and> (\<exists>c\<in>set (childFolders folder). \<exists>f\<in>set (getFilesRecursive c). isMD f)))"
  then show "containerStep s folder parentFolder currentPath st = (Returned parentFolder, st)"
    using assms by (simp only: containerStep_iff) auto
next
  assume c: "((\<not> combineFiles s folder \<and> (\<exists>f\<in>set (getFilesRecursive folder). isMD f))
        \<or> (combineFiles s folder
             \<and> (\<exists>c\<in>set (childFolders folder). \<exists>f\<in>set (getFilesRecursive c). isMD f)))
       \<and> (parentFolder = None \<or> (\<exists>p\<in>set (st_folders st). Some p = parentFolder))"
  with assms have call: "containerStep s folder parentFolder currentPath st
            = createOrGetFolder (Some (folderName folder)) (map_option fo_id parentFolder)
                currentPath st"
    by (simp only: containerStep_iff) auto
  from c have "map_option fo_id parentFolder = None
      \<or> (\<exists>p\<in>set (st_folders st). Some (fo_id p) = map_option fo_id parentFolder)"
    by auto
  with assms createOrGetFolder_cases [of "map_option fo_id parentFolder" currentPath st "folderName folder"]
  obtain r st' where r: "createOrGetFolder (Some (folderName folder))
        (map_option fo_id parentFolder) currentPath st = (Returned (Some r), st')"
    and "(r \<in> set (st_folders st) \<and> st' = st) \<or> st' = st\<lparr> st_folders := st_folders st @ [r] \<rparr>"
    by blast
  then have "r \<in> set (st_folders st')" by auto
  with r call show "\<exists>f st'. containerStep s folder parentFolder currentPath st
        = (Returned (Some f), st') \<and> f \<in> set (st_folders st')"
    by auto
qed

text \<open>
  C6. At the root (empty name) of a vault whose notes are combined, with a markdown file
  in the subtree of a child folder, condition (b) holds and \<^verbatim>\<open>createOrGetFolder\<close> is called
  with the empty name. It returns \<^verbatim>\<open>null\<close> and the store stays as it was: no container is
  created or fetched. Line 204 assigns that result to \<^verbatim>\<open>parentFolder\<close>, so the files of the
  root and all child folders are imported with no parent folder, whatever folder the import
  was given.
\<close>

theorem combined_root_drops_parent:
  assumes "combineFiles s (FolderInfo [] children fs)"
    and "\<exists>c\<in>set children. \<exists>f\<in>set (getFilesRecursive c). isMD f"
  shows "containerStep s (FolderInfo [] children fs) parentFolder currentPath st = (Returned None, st)
       \<and> importFolder (FolderInfo [] children fs) s parentFolder existingImagePaths currentPath st =
           (case combinedJournal s (FolderInfo [] children fs) parentFolder currentPath st of
              (parentJournal, st1) \<Rightarrow>
                (case importFiles fs s None parentJournal existingImagePaths emptyStats st1 of
                   (stats, st3) \<Rightarrow>
                     importChildFolders children s None existingImagePaths currentPath stats st3))"
proof -
  have step: "containerStep s (FolderInfo [] children fs) parentFolder currentPath st'
                = (Returned None, st')" for st'
    using assms by (simp add: containerStep_iff createOrGetFolder_def)
  show ?thesis
    by (simp add: step split: prod.split)
qed

theorem combined_root_drops_parent_witness:
  "combineFiles combineSettings rootWithChild
   \<and> containerStep combineSettings rootWithChild (Some vaultFolder) [] vaultStore
        = (Returned None, vaultStore)"
proof -
  have c: "combineFiles combineSettings (FolderInfo [] [subFolder] [fileA])"
    by (simp add: combineFiles_def hasMDFiles_def combineSettings_def fileA_def isMD_def)
  have m: "\<exists>c\<in>set [subFolder]. \<exists>f\<in>set (getFilesRecursive c). isMD f"
    by (simp add: subFolder_def fileB_def isMD_def)
  from combined_root_drops_parent [OF c m, of "Some vaultFolder" "[]" vaultStore] c
  show ?thesis
    unfolding rootWithChild_def by simp
qed
section \<open>Importing a combined root twice\<close>

lemma createJournal_without_path:
  assumes "\<not> truthy filePath"
  shows "createJournal n pf obs filePath st =
     (\<lparr> je_id = RandomId (st_nextRandom st), je_name = n, je_folder = map_option fo_id pf,
        je_ownership = (if obs then Some OBSERVER else None), je_flag = True \<rparr>,
      st\<lparr> st_journals := st_journals st @
             [\<lparr> je_id = RandomId (st_nextRandom st), je_name = n, je_folder = map_option fo_id pf,
                je_ownership = (if obs then Some OBSERVER else None), je_flag = True \<rparr>],
          st_nextRandom := Suc (st_nextRandom st) \<rparr>)"
  using assms by (simp add: createJournal_def Let_def)

lemma createJournalPage_journals:
  "st_journals (snd (createJournalPage n c e fp st)) = st_journals st"
  by (simp add: createJournalPage_def Let_def split: option.split)

lemma importMarkdownFile_journals:
  "st_journals (snd (importMarkdownFile file s pf (Some pj) st)) = st_journals st"
proof -
  have "st_journals (snd (case createJournalPage n c e fp st of (p, st') \<Rightarrow> (Some p, st')))
      = st_journals st" for n c e fp
    using createJournalPage_journals [of n c e fp st]
    by (cases "createJournalPage n c e fp st") simp
  then show ?thesis
    by (simp add: importMarkdownFile_def Let_def updateJournalPage_def)
qed

lemma importFile_journals:
  "st_journals (snd (importFile file s pf (Some pj) ex st)) = st_journals st"
proof (cases "vf_kind file")
  case MDFile
  then show ?thesis
    using importMarkdownFile_journals [of "file" s pf pj st]
    by (cases "importMarkdownFile file s pf (Some pj) st") (simp add: importFile_def)
next
  case OtherFile
  then show ?thesis
    by (simp add: importFile_def importOtherFile_def)
qed

lemma importFiles_journals:
  "st_journals (snd (importFiles fs s pf (Some pj) ex acc st)) = st_journals st"
proof (induction fs arbitrary: acc st)
  case Nil
  show ?case by simp
next
  case (Cons f fs)
  obtain stats st' where r: "importFile f s pf (Some pj) ex st = (stats, st')"
    by (cases "importFile f s pf (Some pj) ex st")
  with importFile_journals [of f s pf pj ex st] have "st_journals st' = st_journals st"
    by simp
  with r Cons.IH [of "addStats acc stats" st'] show ?case by simp
qed

lemma root_combined_run:
  assumes "combineNotes s" and "\<exists>f\<in>set fs. isMD f"
  shows "\<exists>stats st'.
           importFolder (FolderInfo [] [] fs) s parentFolder existingImagePaths [] st
             = (Returned stats, st')
           \<and> length (st_journals st') = Suc (length (st_journals st))"
proof -
  let ?folder = "FolderInfo [] [] fs"
  from assms have combine: "combineFiles s ?folder"
    by (simp add: combineFiles_def hasMDFiles_def filter_empty_conv)
  let ?entry = "\<lparr> je_id = RandomId (st_nextRandom st), je_name = [],
        je_folder = map_option fo_id parentFolder,
        je_ownership = (if playerObserve s then Some OBSERVER else None), je_flag = True \<rparr>"
  let ?st1 = "st\<lparr> st_journals := st_journals st @ [?entry],
                  st_nextRandom := Suc (st_nextRandom st) \<rparr>"
  have journal: "combinedJournal s ?folder parentFolder [] st = (Some ?entry, ?st1)"
    using combine
    by (simp add: combinedJournal_def createJournal_without_path truthy_def)
  have container: "containerStep s ?folder parentFolder [] ?st1 = (Returned parentFolder, ?st1)"
    using combine by (simp add: containerStep_def oneJournalPerFile_def)
  obtain stats st3 where files:
    "importFiles fs s parentFolder (Some ?entry) existingImagePaths emptyStats ?st1 = (stats, st3)"
    by (cases "importFiles fs s parentFolder (Some ?entry) existingImagePaths emptyStats ?st1")
  with importFiles_journals [of fs s parentFolder ?entry existingImagePaths emptyStats ?st1]
  have "st_journals st3 = st_journals st @ [?entry]"
    by simp
  moreover have "importFolder ?folder s parentFolder existingImagePaths [] st = (Returned stats, st3)"
    by (simp add: journal container files)
  ultimately show ?thesis by simp
qed

text \<open>
  C2 fails for a vault with a markdown file in its root when notes are combined. The root
  has the empty name and the empty path, \<^verbatim>\<open>createJournal\<close> takes the empty path for no
  path and creates a journal without looking one up. So the first import of such a
  vault, into any store, returns with one journal more than before, and the second import
  with one more again.
\<close>

theorem second_import_adds_journal:
  assumes "combineNotes s" and "\<exists>f\<in>set fs. isMD f"
  shows "\<exists>stats1 st1 stats2 st2.
           importFolder (FolderInfo [] [] fs) s parentFolder existingImagePaths [] st
             = (Returned stats1, st1)
           \<and> importFolder (FolderInfo [] [] fs) s parentFolder existingImagePaths [] st1
             = (Returned stats2, st2)
           \<and> length (st_journals st1) = Suc (length (st_journals st))
           \<and> length (st_journals st2) = Suc (length (st_journals st1))"
proof -
  from root_combined_run [OF assms, of parentFolder existingImagePaths st]
  obtain stats1 st1 where first:
    "importFolder (FolderInfo [] [] fs) s parentFolder existingImagePaths [] st = (Returned stats1, st1)"
    "length (st_journals st1) = Suc (length (st_journals st))"
    by blast
  from root_combined_run [OF assms, of parentFolder existingImagePaths st1]
  obtain stats2 st2 where second:
    "importFolder (FolderInfo [] [] fs) s parentFolder existingImagePaths [] st1 = (Returned stats2, st2)"
    "length (st_journals st2) = Suc (length (st_journals st1))"
    by blast
  from first second show ?thesis by blast
qed

theorem second_import_adds_journal_witness:
  "\<exists>stats1 st1 stats2 st2.
     importFolder rootOnly combineSettings (Some vaultFolder) Map.empty [] vaultStore
       = (Returned stats1, st1)
     \<and> importFolder rootOnly combineSettings (Some vaultFolder) Map.empty [] st1
       = (Returned stats2, st2)
     \<and> length (st_journals st1) = Suc (length (st_journals vaultStore))
     \<and> length (st_journals st2) = Suc (length (st_journals st1))"
  unfolding rootOnly_def
  by (rule second_import_adds_journal)
    (simp_all add: combineSettings_def fileA_def isMD_def)

end
